theory Spec2Isabelle
  imports Complex_Main "HOL-Library.Log_Nat"
begin

section \<open>Python values, errors and built-ins used by \<open>iprotection.py\<close>\<close>

text \<open>
  Exceptions are values: every function of the module that can raise returns
  \<open>py_error + 'a\<close>, with \<open>Inl\<close> for the exception.
\<close>

datatype py_error = KeyError | TypeError | ValueError | OverflowError

text \<open>
  The values a configuration mapping holds (the documented keys are integers and
  strings; \<open>None\<close> and booleans are what a JSON configuration can hold besides).
\<close>

datatype pyval = PyNone | PyBool bool | PyInt int | PyStr string

text \<open>
  A \<open>dict\<close> with string keys, as the list of its items in insertion order; \<open>map_of\<close>
  reads a key.
\<close>

type_synonym pydict = "(string \<times> pyval) list"

text \<open>\<open>key in d\<close>, \<open>d[key]\<close> and \<open>d.get(key, default)\<close>.\<close>

definition has_key :: "pydict \<Rightarrow> string \<Rightarrow> bool" where
  "has_key d k = (map_of d k \<noteq> None)"

definition dict_item :: "pydict \<Rightarrow> string \<Rightarrow> py_error + pyval" where
  "dict_item d k = (case map_of d k of None \<Rightarrow> Inl KeyError | Some v \<Rightarrow> Inr v)"

definition dict_get :: "pydict \<Rightarrow> string \<Rightarrow> pyval \<Rightarrow> pyval" where
  "dict_get d k dflt = (case map_of d k of None \<Rightarrow> dflt | Some v \<Rightarrow> v)"

subsection \<open>\<open>str()\<close> and the formatting of an integer in an f-string\<close>

definition digit_char :: "nat \<Rightarrow> char" where
  "digit_char d = ''0123456789'' ! d"

fun str_nat :: "nat \<Rightarrow> string" where
  "str_nat n = (if n < 10 then [digit_char n] else str_nat (n div 10) @ [digit_char (n mod 10)])"

declare str_nat.simps [simp del]

definition str_int :: "int \<Rightarrow> string" where
  "str_int i = (if i < 0 then CHR ''-'' # str_nat (nat (- i)) else str_nat (nat i))"

fun py_str :: "pyval \<Rightarrow> string" where
  "py_str PyNone = ''None''"
| "py_str (PyBool b) = (if b then ''True'' else ''False'')"
| "py_str (PyInt i) = str_int i"
| "py_str (PyStr s) = s"

subsection \<open>\<open>int()\<close>\<close>

text \<open>
  \<open>int(s)\<close> of a string, base ten: surrounding white space is dropped, one sign is
  allowed, and the digits may be grouped by single underscores. A character is a code
  point below 256; the white space there is the ASCII white space and the code points
  133 (next line) and 160 (no-break space), and the decimal digits are the ASCII digits.
\<close>

definition is_digit :: "char \<Rightarrow> bool" where
  "is_digit c = (c \<in> set ''0123456789'')"

definition digit_val :: "char \<Rightarrow> nat" where
  "digit_val c = of_char c - 48"

definition is_space :: "char \<Rightarrow> bool" where
  "is_space c = (of_char c \<in> {9, 10, 11, 12, 13, 32, 133, 160 :: nat})"

definition strip :: "string \<Rightarrow> string" where
  "strip s = rev (dropWhile is_space (rev (dropWhile is_space s)))"

fun digits_acc :: "nat \<Rightarrow> string \<Rightarrow> nat option" where
  "digits_acc acc [] = Some acc"
| "digits_acc acc [c] = (if is_digit c then Some (acc * 10 + digit_val c) else None)"
| "digits_acc acc (c # d # cs) =
     (if is_digit c then
        (if d = CHR ''_'' then digits_acc (acc * 10 + digit_val c) cs
         else digits_acc (acc * 10 + digit_val c) (d # cs))
      else None)"

definition parse_digits :: "string \<Rightarrow> nat option" where
  "parse_digits s = (if s = [] \<or> \<not> is_digit (last s) then None else digits_acc 0 s)"

definition int_of_string :: "string \<Rightarrow> py_error + int" where
  "int_of_string s =
     (case strip s of
        [] \<Rightarrow> Inl ValueError
      | c # cs \<Rightarrow>
          if c = CHR ''-'' then
            (case parse_digits cs of None \<Rightarrow> Inl ValueError | Some n \<Rightarrow> Inr (- int n))
          else if c = CHR ''+'' then
            (case parse_digits cs of None \<Rightarrow> Inl ValueError | Some n \<Rightarrow> Inr (int n))
          else
            (case parse_digits (c # cs) of None \<Rightarrow> Inl ValueError | Some n \<Rightarrow> Inr (int n)))"

fun py_int :: "pyval \<Rightarrow> py_error + int" where
  "py_int PyNone = Inl TypeError"
| "py_int (PyBool b) = Inr (if b then 1 else 0)"
| "py_int (PyInt i) = Inr i"
| "py_int (PyStr s) = int_of_string s"

section \<open>The \<open>datetime\<close> module\<close>

subsection \<open>The proleptic Gregorian calendar\<close>

definition is_leap :: "int \<Rightarrow> bool" where
  "is_leap y = (y mod 4 = 0 \<and> (y mod 100 \<noteq> 0 \<or> y mod 400 = 0))"

definition days_in_month :: "int \<Rightarrow> int \<Rightarrow> int" where
  "days_in_month y m =
     (if m = 2 then (if is_leap y then 29 else 28)
      else if m = 4 \<or> m = 6 \<or> m = 9 \<or> m = 11 then 30 else 31)"

definition days_before_year :: "int \<Rightarrow> int" where
  "days_before_year y = (y - 1) * 365 + (y - 1) div 4 - (y - 1) div 100 + (y - 1) div 400"

definition days_before_month :: "int \<Rightarrow> int \<Rightarrow> int" where
  "days_before_month y m =
     [0, 31, 59, 90, 120, 151, 181, 212, 243, 273, 304, 334] ! nat (m - 1)
       + (if 2 < m \<and> is_leap y then 1 else 0)"

definition ymd2ord :: "int \<Rightarrow> int \<Rightarrow> int \<Rightarrow> int" where
  "ymd2ord y m d = days_before_year y + days_before_month y m + d"

definition MAXORDINAL :: int where
  "MAXORDINAL = 3652059"

text \<open>
  The inverse of \<open>ymd2ord\<close>, by the 400-, 100-, 4- and 1-year cycles, as
  \<open>datetime._ord2ymd\<close> computes it.
\<close>

definition ord2ymd :: "int \<Rightarrow> int \<times> int \<times> int" where
  "ord2ymd n0 =
     (let n = n0 - 1;
          n400 = n div 146097; n = n mod 146097;
          n100 = n div 36524; n = n mod 36524;
          n4 = n div 1461; n = n mod 1461;
          n1 = n div 365; n = n mod 365;
          y = n400 * 400 + 1 + n100 * 100 + n4 * 4 + n1
      in if n1 = 4 \<or> n100 = 4 then (y - 1, 12, 31)
         else
           (let m = (n + 50) div 32;
                m' = (if n < days_before_month y m then m - 1 else m)
            in (y, m', n - days_before_month y m' + 1)))"

subsection \<open>\<open>datetime\<close> objects\<close>

text \<open>
  A \<open>datetime\<close> with its attributes. \<open>tzinfo\<close> is absent (a naive datetime) or a fixed
  offset from UTC in microseconds (\<open>timezone.utc\<close> is offset 0).
\<close>

record datetime =
  year :: int
  month :: int
  day :: int
  hour :: int
  minute :: int
  second :: int
  microsecond :: int
  tzinfo :: "int option"

definition utc :: "int option" where
  "utc = Some 0"

definition valid_date :: "int \<Rightarrow> int \<Rightarrow> int \<Rightarrow> bool" where
  "valid_date y m d = (1 \<le> y \<and> y \<le> 9999 \<and> 1 \<le> m \<and> m \<le> 12 \<and> 1 \<le> d \<and> d \<le> days_in_month y m)"

definition valid_datetime :: "datetime \<Rightarrow> bool" where
  "valid_datetime t =
     (valid_date (year t) (month t) (day t)
      \<and> 0 \<le> hour t \<and> hour t < 24 \<and> 0 \<le> minute t \<and> minute t < 60
      \<and> 0 \<le> second t \<and> second t < 60 \<and> 0 \<le> microsecond t \<and> microsecond t < 1000000
      \<and> (case tzinfo t of None \<Rightarrow> True | Some off \<Rightarrow> - 86400000000 < off \<and> off < 86400000000))"

text \<open>The microseconds of a datetime's own wall clock since the start of ordinal day 0.\<close>

definition local_us :: "datetime \<Rightarrow> int" where
  "local_us t =
     ((ymd2ord (year t) (month t) (day t) * 86400
        + hour t * 3600 + minute t * 60 + second t) * 1000000 + microsecond t)"

text \<open>
  The constructor's check of its fields, which \<open>replace\<close> goes through: a field out of
  range raises \<open>ValueError\<close>.
\<close>

definition datetime_new :: "datetime \<Rightarrow> py_error + datetime" where
  "datetime_new t = (if valid_datetime t then Inr t else Inl ValueError)"

text \<open>\<open>a.time() < b.time()\<close>: the naive times of day, compared field by field.\<close>

definition time_lt :: "datetime \<Rightarrow> datetime \<Rightarrow> bool" where
  "time_lt a b =
     (hour a < hour b \<or> (hour a = hour b \<and>
       (minute a < minute b \<or> (minute a = minute b \<and>
         (second a < second b \<or> (second a = second b \<and> microsecond a < microsecond b))))))"

text \<open>
  \<open>a - b\<close>, a \<open>timedelta\<close> (here its microseconds): two naive datetimes by their wall
  clocks, two aware ones as instants, and \<open>TypeError\<close> for one of each.
\<close>

definition dt_sub :: "datetime \<Rightarrow> datetime \<Rightarrow> py_error + int" where
  "dt_sub a b =
     (case (tzinfo a, tzinfo b) of
        (None, None) \<Rightarrow> Inr (local_us a - local_us b)
      | (Some oa, Some ob) \<Rightarrow> Inr (local_us a - local_us b + ob - oa)
      | _ \<Rightarrow> Inl TypeError)"

text \<open>\<open>a > b\<close> on datetimes: as \<open>a - b\<close>, and \<open>TypeError\<close> in the same case.\<close>

definition dt_gt :: "datetime \<Rightarrow> datetime \<Rightarrow> py_error + bool" where
  "dt_gt a b = (case dt_sub a b of Inl e \<Rightarrow> Inl e | Inr d \<Rightarrow> Inr (0 < d))"

text \<open>\<open>max(xs)\<close>: the first of the greatest elements; \<open>ValueError\<close> on an empty list.\<close>

fun max_loop :: "datetime \<Rightarrow> datetime list \<Rightarrow> py_error + datetime" where
  "max_loop m [] = Inr m"
| "max_loop m (x # xs) =
     (case dt_gt x m of Inl e \<Rightarrow> Inl e | Inr b \<Rightarrow> max_loop (if b then x else m) xs)"

definition py_max :: "datetime list \<Rightarrow> py_error + datetime" where
  "py_max xs = (case xs of [] \<Rightarrow> Inl ValueError | x # xs' \<Rightarrow> max_loop x xs')"

text \<open>
  \<open>timedelta(minutes=m)\<close>, in microseconds: its days must stay within
  \<open>\<plusminus>999999999\<close>, and \<open>OverflowError\<close> is raised otherwise.
\<close>

definition timedelta_minutes :: "int \<Rightarrow> py_error + int" where
  "timedelta_minutes m =
     (let us = m * 60000000; days = us div 86400000000
      in if - 999999999 \<le> days \<and> days \<le> 999999999 then Inr us else Inl OverflowError)"

definition from_local_us :: "int \<Rightarrow> int option \<Rightarrow> datetime" where
  "from_local_us n tz =
     (let days = n div 86400000000; r = n mod 86400000000; secs = r div 1000000
      in case ord2ymd days of (y, m, d) \<Rightarrow>
           \<lparr>year = y, month = m, day = d,
            hour = secs div 3600, minute = secs mod 3600 div 60, second = secs mod 60,
            microsecond = r mod 1000000, tzinfo = tz\<rparr>)"

text \<open>
  \<open>t + td\<close>: the wall clock moved by the timedelta, the zone kept; \<open>OverflowError\<close>
  when the day leaves the ordinals \<open>1 .. MAXORDINAL\<close>.
\<close>

definition dt_add :: "datetime \<Rightarrow> int \<Rightarrow> py_error + datetime" where
  "dt_add t td =
     (let n = local_us t + td; days = n div 86400000000
      in if 0 < days \<and> days \<le> MAXORDINAL then Inr (from_local_us n (tzinfo t))
         else Inl OverflowError)"

subsection \<open>\<open>datetime.strptime(s, "%H:%M")\<close>\<close>

text \<open>
  The format compiles to the regular expression
  \<^verbatim>\<open>(?P<H>2[0-3]|[0-1]\d|\d):(?P<M>[0-5]\d|\d)\<close>, matched at the start of the string;
  the alternatives are tried in this order, and text left after the match raises
  \<open>ValueError\<close>, as no match does. The result is that time on 1900-01-01, naive.
  (A character is a code point below 256, where the digits are the ASCII digits.)
\<close>

definition in_range :: "char \<Rightarrow> char \<Rightarrow> char \<Rightarrow> bool" where
  "in_range lo hi c = (of_char lo \<le> (of_char c :: nat) \<and> (of_char c :: nat) \<le> of_char hi)"

definition match_H :: "string \<Rightarrow> (int \<times> string) list" where
  "match_H s =
     (case s of
        [] \<Rightarrow> []
      | [c] \<Rightarrow> (if is_digit c then [(int (digit_val c), [])] else [])
      | c # d # r \<Rightarrow>
          (if c = CHR ''2'' \<and> in_range CHR ''0'' CHR ''3'' d
           then [(20 + int (digit_val d), r)] else [])
          @ (if in_range CHR ''0'' CHR ''1'' c \<and> is_digit d
             then [(int (digit_val c) * 10 + int (digit_val d), r)] else [])
          @ (if is_digit c then [(int (digit_val c), d # r)] else []))"

definition match_M :: "string \<Rightarrow> (int \<times> string) list" where
  "match_M s =
     (case s of
        [] \<Rightarrow> []
      | [c] \<Rightarrow> (if is_digit c then [(int (digit_val c), [])] else [])
      | c # d # r \<Rightarrow>
          (if in_range CHR ''0'' CHR ''5'' c \<and> is_digit d
           then [(int (digit_val c) * 10 + int (digit_val d), r)] else [])
          @ (if is_digit c then [(int (digit_val c), d # r)] else []))"

definition match_colon :: "string \<Rightarrow> string list" where
  "match_colon s = (case s of [] \<Rightarrow> [] | c # r \<Rightarrow> (if c = CHR '':'' then [r] else []))"

definition match_HM :: "string \<Rightarrow> (int \<times> int \<times> string) list" where
  "match_HM s =
     concat (map (\<lambda>(h, r). concat (map (\<lambda>r'. map (\<lambda>(m, rest). (h, m, rest)) (match_M r'))
                                        (match_colon r)))
                 (match_H s))"

definition strptime_HM :: "string \<Rightarrow> py_error + datetime" where
  "strptime_HM s =
     (case match_HM s of
        [] \<Rightarrow> Inl ValueError
      | (h, m, rest) # _ \<Rightarrow>
          if rest = [] then
            Inr \<lparr>year = 1900, month = 1, day = 1, hour = h, minute = m, second = 0,
                 microsecond = 0, tzinfo = None\<rparr>
          else Inl ValueError)"

section \<open>Floating point: \<open>total_seconds() / 60\<close> and \<open>int()\<close>\<close>

text \<open>
  A Python float is an IEEE 754 double. The doubles are rational numbers; an operation
  returns the double nearest to the exact result, a tie going to the even significand
  of 53 bits. (The exponent is not bounded here: the magnitudes this module computes lie
  between \<open>10\<^sup>-\<^sup>8\<close> and \<open>10\<^sup>1\<^sup>2\<close>, far inside the normal range of a double.)
\<close>

definition round_half_even :: "rat \<Rightarrow> int" where
  "round_half_even x =
     (let f = \<lfloor>x\<rfloor>; d = x - of_int f
      in if d < 1 / 2 then f else if 1 / 2 < d then f + 1 else if even f then f else f + 1)"

text \<open>For \<open>0 < x\<close>, the exponent \<open>e\<close> with \<open>2\<^sup>e \<le> x < 2\<^sup>e\<^sup>+\<^sup>1\<close>.\<close>

definition ilog2 :: "rat \<Rightarrow> int" where
  "ilog2 x = (if 1 \<le> x then bitlen \<lfloor>x\<rfloor> - 1 else - bitlen (\<lceil>1 / x\<rceil> - 1))"

definition fl_pos :: "rat \<Rightarrow> rat" where
  "fl_pos x = (let u = 2 powi (ilog2 x - 52) in of_int (round_half_even (x / u)) * u)"

definition fl :: "rat \<Rightarrow> rat" where
  "fl x = (if x = 0 then 0 else if 0 < x then fl_pos x else - fl_pos (- x))"

text \<open>
  \<open>timedelta.total_seconds()\<close>: the true quotient of the microseconds by \<open>10\<^sup>6\<close>,
  rounded once.
\<close>

definition total_seconds :: "int \<Rightarrow> rat" where
  "total_seconds us = fl (of_int us / 1000000)"

text \<open>\<open>x / y\<close> on floats, for \<open>y \<noteq> 0\<close>.\<close>

definition float_div :: "rat \<Rightarrow> rat \<Rightarrow> rat" where
  "float_div x y = fl (x / y)"

text \<open>\<open>int(x)\<close> of a float: truncation toward zero.\<close>

definition int_of_float :: "rat \<Rightarrow> int" where
  "int_of_float x = (if 0 \<le> x then \<lfloor>x\<rfloor> else \<lceil>x\<rceil>)"

section \<open>\<open>IProtection\<close>\<close>

text \<open>
  The instance attributes \<open>_config\<close>, \<open>_protection_config\<close>, \<open>_stop_duration_candles\<close>,
  \<open>_lookback_period_candles\<close>, \<open>unlock_at\<close>, \<open>_stop_duration\<close> and \<open>_lookback_period\<close>.
  The two mappings (\<open>self_config\<close>, \<open>self_protection_config\<close>) are the caller's own
  objects, which the instance keeps.
\<close>

record iprotection =
  self_config :: pydict
  self_protection_config :: pydict
  stop_duration_candles :: "int option"
  lookback_period_candles :: "int option"
  unlock_at :: "datetime option"
  stop_duration :: int
  lookback_period :: int

text \<open>What \<open>logger.warning\<close> and its siblings emit.\<close>

datatype log_level = WARNING

type_synonym log_record = "log_level \<times> string"

text \<open>Of a \<open>LocalTrade\<close>, the attribute this module reads.\<close>

record local_trade =
  close_date :: "datetime option"

text \<open>
  Modelled from the spec: \<open>plural(count, singular, plural)\<close> of \<open>freqtrade.misc\<close>, the
  pluralization helper, which is not among the sources: 1 gives the singular form,
  2 and 60 give the plural form. The accessors below take the helper as a parameter.
\<close>

definition plural :: "int \<Rightarrow> string \<Rightarrow> string \<Rightarrow> string" where
  "plural num singular plur = (if num = 1 then singular else plur)"

subsection \<open>\<open>calculate_timespan\<close>\<close>

definition calculate_timespan :: "datetime \<Rightarrow> datetime \<Rightarrow> py_error + int" where
  "calculate_timespan start_time end_time =
     (case dt_sub end_time start_time of
        Inl e \<Rightarrow> Inl e
      | Inr td \<Rightarrow> Inr (int_of_float (float_div (total_seconds td) 60)))"

subsection \<open>\<open>calculate_lock_end\<close>\<close>

definition calculate_lock_end :: "'a local_trade_scheme list \<Rightarrow> int \<Rightarrow> py_error + datetime" where
  "calculate_lock_end trades stop_minutes =
     (case py_max (List.map_filter close_date trades) of
        Inl e \<Rightarrow> Inl e
      | Inr max_date \<Rightarrow>
          (let max_date = (if tzinfo max_date = None then max_date\<lparr>tzinfo := utc\<rparr> else max_date)
           in case timedelta_minutes stop_minutes of
                Inl e \<Rightarrow> Inl e
              | Inr td \<Rightarrow> dt_add max_date td))"

subsection \<open>\<open>calculate_unlock_at\<close> and \<open>set_unlock_at_as_stop_duration\<close>\<close>

text \<open>
  \<open>now_time\<close> is what \<open>datetime.now(timezone.utc)\<close> returns when the method runs. The
  method returns its result together with the instance, whose \<open>unlock_at\<close> it has set.
\<close>

definition calculate_unlock_at :: "datetime \<Rightarrow> iprotection \<Rightarrow> py_error + (iprotection \<times> int)" where
  "calculate_unlock_at now_time self =
     (case strptime_HM (py_str (dict_get (self_protection_config self) ''unlock_at'' PyNone)) of
        Inl e \<Rightarrow> Inl e
      | Inr parsed \<Rightarrow>
     (case datetime_new (parsed\<lparr>day := day now_time, year := year now_time,
                                 month := month now_time\<rparr>) of
        Inl e \<Rightarrow> Inl e
      | Inr unlock \<Rightarrow>
     (case (if time_lt unlock now_time
            then datetime_new (unlock\<lparr>day := day now_time + 1\<rparr>)
            else Inr unlock) of
        Inl e \<Rightarrow> Inl e
      | Inr unlock \<Rightarrow>
     (case datetime_new (unlock\<lparr>tzinfo := utc\<rparr>) of
        Inl e \<Rightarrow> Inl e
      | Inr unlock \<Rightarrow>
     (let self = self\<lparr>unlock_at := Some unlock\<rparr>
      in case calculate_timespan now_time unlock of
           Inl e \<Rightarrow> Inl e
         | Inr result \<Rightarrow> Inr (self, result))))))"

definition unlock_at_warning :: string where
  "unlock_at_warning =
     ''Couldn't update the stop duration, because unlock_at is not set in the protection config.''"

definition set_unlock_at_as_stop_duration ::
    "datetime \<Rightarrow> iprotection \<Rightarrow> py_error + (iprotection \<times> log_record list)" where
  "set_unlock_at_as_stop_duration now_time self =
     (if has_key (self_protection_config self) ''unlock_at'' then
        (case calculate_unlock_at now_time self of
           Inl e \<Rightarrow> Inl e
         | Inr (self, result) \<Rightarrow> Inr (self\<lparr>stop_duration := result\<rparr>, []))
      else Inr (self, [(WARNING, unlock_at_warning)]))"

subsection \<open>\<open>__init__\<close>\<close>

text \<open>
  One of the two windows: the candle key, when present, decides, and the minute key
  with its default of 60 is read otherwise. The result is the candle count kept for
  display and the minutes.
\<close>

definition resolve_window :: "int \<Rightarrow> pydict \<Rightarrow> string \<Rightarrow> string \<Rightarrow> py_error + (int option \<times> int)" where
  "resolve_window tf_in_min protection_config candles_key minutes_key =
     (if has_key protection_config candles_key then
        (case py_int (dict_get protection_config candles_key (PyInt 1)) of
           Inl e \<Rightarrow> Inl e
         | Inr candles \<Rightarrow> Inr (Some candles, tf_in_min * candles))
      else
        (case py_int (dict_get protection_config minutes_key (PyInt 60)) of
           Inl e \<Rightarrow> Inl e
         | Inr minutes \<Rightarrow> Inr (None, minutes)))"

text \<open>
  The constructor up to the call of \<open>set_unlock_at_as_stop_duration\<close>.
  \<open>timeframe_to_minutes\<close> (of \<open>freqtrade.exchange\<close>) is a parameter.
\<close>

definition init_windows ::
    "(pyval \<Rightarrow> py_error + int) \<Rightarrow> pydict \<Rightarrow> pydict \<Rightarrow> py_error + iprotection" where
  "init_windows timeframe_to_minutes config protection_config =
     (case dict_item config ''timeframe'' of
        Inl e \<Rightarrow> Inl e
      | Inr tf \<Rightarrow>
     (case timeframe_to_minutes tf of
        Inl e \<Rightarrow> Inl e
      | Inr tf_in_min \<Rightarrow>
     (case resolve_window tf_in_min protection_config ''stop_duration_candles'' ''stop_duration'' of
        Inl e \<Rightarrow> Inl e
      | Inr (sd_candles, sd) \<Rightarrow>
     (case resolve_window tf_in_min protection_config
             ''lookback_period_candles'' ''lookback_period'' of
        Inl e \<Rightarrow> Inl e
      | Inr (lp_candles, lp) \<Rightarrow>
          Inr \<lparr>self_config = config, self_protection_config = protection_config,
               stop_duration_candles = sd_candles, lookback_period_candles = lp_candles,
               unlock_at = None, stop_duration = sd, lookback_period = lp\<rparr>))))"

text \<open>
  The constructor. \<open>LoggingMixin.__init__\<close>, its last call, sets up the throttled
  logging of the instance and touches none of the attributes above.
\<close>

definition init ::
    "(pyval \<Rightarrow> py_error + int) \<Rightarrow> datetime \<Rightarrow> pydict \<Rightarrow> pydict
       \<Rightarrow> py_error + (iprotection \<times> log_record list)" where
  "init timeframe_to_minutes now_time config protection_config =
     (case init_windows timeframe_to_minutes config protection_config of
        Inl e \<Rightarrow> Inl e
      | Inr self \<Rightarrow> set_unlock_at_as_stop_duration now_time self)"

subsection \<open>The accessors\<close>

text \<open>The truth value of an \<open>Optional[int]\<close>: \<open>None\<close> and 0 are false.\<close>

definition truthy :: "int option \<Rightarrow> bool" where
  "truthy v = (case v of None \<Rightarrow> False | Some n \<Rightarrow> n \<noteq> 0)"

definition stop_duration_str :: "(int \<Rightarrow> string \<Rightarrow> string \<Rightarrow> string) \<Rightarrow> iprotection \<Rightarrow> string" where
  "stop_duration_str plural_fn self =
     (if truthy (stop_duration_candles self) then
        str_int (the (stop_duration_candles self)) @ '' ''
          @ plural_fn (the (stop_duration_candles self)) ''candle'' ''candles''
      else
        str_int (stop_duration self) @ '' ''
          @ plural_fn (stop_duration self) ''minute'' ''minutes'')"

definition lookback_period_str :: "(int \<Rightarrow> string \<Rightarrow> string \<Rightarrow> string) \<Rightarrow> iprotection \<Rightarrow> string" where
  "lookback_period_str plural_fn self =
     (if truthy (lookback_period_candles self) then
        str_int (the (lookback_period_candles self)) @ '' ''
          @ plural_fn (the (lookback_period_candles self)) ''candle'' ''candles''
      else
        str_int (lookback_period self) @ '' ''
          @ plural_fn (lookback_period self) ''minute'' ''minutes'')"

definition pad2 :: "int \<Rightarrow> string" where
  "pad2 n = (if n < 10 then CHR ''0'' # str_int n else str_int n)"

definition unlock_at_str :: "iprotection \<Rightarrow> string option" where
  "unlock_at_str self =
     (case unlock_at self of
        None \<Rightarrow> None
      | Some t \<Rightarrow> Some (pad2 (hour t) @ '':'' @ pad2 (minute t)))"

section \<open>What the specification says of the helpers\<close>

text \<open>
  The whole minutes of a span of \<open>us\<close> microseconds, in the spec's words: the seconds of
  the span divided by 60, truncated toward zero. The arithmetic is exact here.
\<close>

definition whole_minutes :: "int \<Rightarrow> int" where
  "whole_minutes us =
     (let m = (of_int us / 1000000) / 60 :: rat in if 0 \<le> m then \<lfloor>m\<rfloor> else \<lceil>m\<rceil>)"

text \<open>
  The instant of a datetime, in microseconds: its wall clock less its offset, a naive
  datetime read as UTC.
\<close>

definition utc_us :: "datetime \<Rightarrow> int" where
  "utc_us t = local_us t - (case tzinfo t of None \<Rightarrow> 0 | Some off \<Rightarrow> off)"

section \<open>Example inputs\<close>

text \<open>A \<open>timeframe_to_minutes\<close> that knows the timeframe \<open>"5m"\<close>, and a global configuration.\<close>

definition example_timeframe_to_minutes :: "pyval \<Rightarrow> py_error + int" where
  "example_timeframe_to_minutes v = (if v = PyStr ''5m'' then Inr 5 else Inl ValueError)"

definition example_config :: pydict where
  "example_config = [(''timeframe'', PyStr ''5m'')]"

text \<open>2024-01-15 10:00 UTC, and 2024-01-31 23:00 UTC, the last day of a month.\<close>

definition example_now :: datetime where
  "example_now = \<lparr>year = 2024, month = 1, day = 15, hour = 10, minute = 0, second = 0,
                   microsecond = 0, tzinfo = utc\<rparr>"

definition example_month_end :: datetime where
  "example_month_end = \<lparr>year = 2024, month = 1, day = 31, hour = 23, minute = 0, second = 0,
                         microsecond = 0, tzinfo = utc\<rparr>"

text \<open>2024-12-31 10:00 UTC, the last day of a year, and 2024-01-15 09:00 UTC.\<close>

definition example_year_end :: datetime where
  "example_year_end = \<lparr>year = 2024, month = 12, day = 31, hour = 10, minute = 0, second = 0,
                        microsecond = 0, tzinfo = utc\<rparr>"

definition example_nine :: datetime where
  "example_nine = \<lparr>year = 2024, month = 1, day = 15, hour = 9, minute = 0, second = 0,
                    microsecond = 0, tzinfo = utc\<rparr>"

text \<open>
  Two naive datetimes 9998 years apart less a microsecond: 0001-01-01 00:00:00.000001 and
  9999-01-01 00:00:00; and the last minute of the calendar, 9999-12-31 23:59 UTC.
\<close>

definition example_first :: datetime where
  "example_first = \<lparr>year = 1, month = 1, day = 1, hour = 0, minute = 0, second = 0,
                     microsecond = 1, tzinfo = None\<rparr>"

definition example_last_year :: datetime where
  "example_last_year = \<lparr>year = 9999, month = 1, day = 1, hour = 0, minute = 0, second = 0,
                         microsecond = 0, tzinfo = None\<rparr>"

definition example_last_minute :: datetime where
  "example_last_minute = \<lparr>year = 9999, month = 12, day = 31, hour = 23, minute = 59,
                           second = 0, microsecond = 0, tzinfo = utc\<rparr>"

text \<open>An instance with \<open>unlock_at = "09:00"\<close> in its protection config.\<close>

definition example_instance :: iprotection where
  "example_instance =
     \<lparr>self_config = example_config, self_protection_config = [(''unlock_at'', PyStr ''09:00'')],
      stop_duration_candles = None, lookback_period_candles = None, unlock_at = None,
      stop_duration = 60, lookback_period = 60\<rparr>"

section \<open>The configuration mappings are only read\<close>

lemma calculate_unlock_at_frame:
  "calculate_unlock_at now_time self = Inr (self', r) \<Longrightarrow>
     self_config self' = self_config self
     \<and> self_protection_config self' = self_protection_config self
     \<and> stop_duration_candles self' = stop_duration_candles self
     \<and> stop_duration self' = stop_duration self"
  by (auto simp: calculate_unlock_at_def Let_def split: sum.splits)

lemma set_unlock_at_frame:
  "set_unlock_at_as_stop_duration now_time self = Inr (self', logs) \<Longrightarrow>
     self_config self' = self_config self
     \<and> self_protection_config self' = self_protection_config self
     \<and> stop_duration_candles self' = stop_duration_candles self"
  by (auto simp: set_unlock_at_as_stop_duration_def split: if_splits sum.splits
      dest: calculate_unlock_at_frame)

lemma init_windows_frame:
  "init_windows tfm cfg pc = Inr self \<Longrightarrow>
     self_config self = cfg \<and> self_protection_config self = pc \<and> unlock_at self = None"
  by (auto simp: init_windows_def split: sum.splits prod.splits)

text \<open>
  Claim C10. The constructor and the two methods it calls return an instance whose two
  configuration mappings are the ones passed in, items and order unchanged: neither
  mapping is written. The string accessors (\<open>stop_duration_str\<close>, \<open>lookback_period_str\<close>,
  \<open>unlock_at_str\<close>) and the static helpers (\<open>calculate_lock_end\<close>, \<open>calculate_timespan\<close>)
  return a value only and no instance, so they change nothing at all.
\<close>

theorem config_mappings_unchanged:
  "(init tfm now_time cfg pc = Inr (self, logs) \<longrightarrow>
      self_config self = cfg \<and> self_protection_config self = pc)
   \<and> (set_unlock_at_as_stop_duration now_time self0 = Inr (self1, logs1) \<longrightarrow>
      self_config self1 = self_config self0
      \<and> self_protection_config self1 = self_protection_config self0)
   \<and> (calculate_unlock_at now_time self0 = Inr (self2, r) \<longrightarrow>
      self_config self2 = self_config self0
      \<and> self_protection_config self2 = self_protection_config self0)"
  by (auto simp: init_def split: sum.splits
      dest: calculate_unlock_at_frame set_unlock_at_frame init_windows_frame)

theorem config_mappings_unchanged_witness:
  "init example_timeframe_to_minutes example_now example_config
       [(''unlock_at'', PyStr ''09:00''), (''stop_duration_candles'', PyInt 2)]
     = Inr (\<lparr>self_config = example_config,
               self_protection_config =
                 [(''unlock_at'', PyStr ''09:00''), (''stop_duration_candles'', PyInt 2)],
               stop_duration_candles = Some 2, lookback_period_candles = None,
               unlock_at = Some (example_now\<lparr>day := 16, hour := 9\<rparr>),
               stop_duration = 1380, lookback_period = 60\<rparr>, [])
   \<and> self_config (fst (projr (init example_timeframe_to_minutes example_now example_config
       [(''unlock_at'', PyStr ''09:00''), (''stop_duration_candles'', PyInt 2)]))) = example_config
   \<and> self_protection_config (fst (projr (init example_timeframe_to_minutes example_now
       example_config [(''unlock_at'', PyStr ''09:00''), (''stop_duration_candles'', PyInt 2)])))
       = [(''unlock_at'', PyStr ''09:00''), (''stop_duration_candles'', PyInt 2)]"
proof -
  have i: "init example_timeframe_to_minutes example_now example_config
       [(''unlock_at'', PyStr ''09:00''), (''stop_duration_candles'', PyInt 2)]
     = Inr (\<lparr>self_config = example_config,
               self_protection_config =
                 [(''unlock_at'', PyStr ''09:00''), (''stop_duration_candles'', PyInt 2)],
               stop_duration_candles = Some 2, lookback_period_candles = None,
               unlock_at = Some (example_now\<lparr>day := 16, hour := 9\<rparr>),
               stop_duration = 1380, lookback_period = 60\<rparr>, [])"
    by code_simp
  show ?thesis
    using i config_mappings_unchanged [of example_timeframe_to_minutes example_now example_config
        "[(''unlock_at'', PyStr ''09:00''), (''stop_duration_candles'', PyInt 2)]"]
    by simp
qed

section \<open>A protection config without \<open>unlock_at\<close>\<close>





section \<open>\<open>calculate_lock_end\<close> without a closed trade\<close>

lemma map_filter_all_None:
  "\<forall>t \<in> set trades. close_date t = None \<Longrightarrow> List.map_filter close_date trades = []"
  by (induction trades) auto

text \<open>
  Claim C6. For a list of trades that is empty or in which no trade has a close date,
  and any \<open>stop_minutes\<close>, \<open>calculate_lock_end\<close> raises (the \<open>ValueError\<close> of \<open>max\<close> on an
  empty list) and returns no timestamp.
\<close>

theorem calculate_lock_end_no_closed_trade:
  assumes "\<forall>t \<in> set trades. close_date t = None"
  shows "calculate_lock_end trades stop_minutes = Inl ValueError"
  using map_filter_all_None [OF assms] by (simp add: calculate_lock_end_def py_max_def)

theorem calculate_lock_end_no_closed_trade_witness:
  "calculate_lock_end ([] :: local_trade list) 30 = Inl ValueError
   \<and> calculate_lock_end [\<lparr>close_date = None\<rparr>, \<lparr>close_date = None\<rparr>] (- 5) = Inl ValueError"
  using calculate_lock_end_no_closed_trade [of "[] :: local_trade list" 30]
    calculate_lock_end_no_closed_trade [of "[\<lparr>close_date = None\<rparr>, \<lparr>close_date = None\<rparr>]" "- 5"]
  by simp

section \<open>The stop duration after construction\<close>

lemma init_windows_stop:
  "init_windows tfm cfg pc = Inr self \<Longrightarrow> dict_item cfg ''timeframe'' = Inr tf \<Longrightarrow>
     tfm tf = Inr T \<Longrightarrow>
     resolve_window T pc ''stop_duration_candles'' ''stop_duration''
       = Inr (stop_duration_candles self, stop_duration self)"
  by (auto simp: init_windows_def split: sum.splits prod.splits)

lemma init_from_windows:
  assumes "init tfm now_time cfg pc = Inr (self, logs)"
  shows "\<exists>s0. init_windows tfm cfg pc = Inr s0
           \<and> stop_duration_candles self = stop_duration_candles s0
           \<and> (\<not> has_key pc ''unlock_at'' \<longrightarrow> self = s0)"
proof (cases "init_windows tfm cfg pc")
  case (Inl e)
  with assms show ?thesis by (simp add: init_def)
next
  case (Inr s0)
  then have pc: "self_protection_config s0 = pc"
    by (simp add: init_windows_frame)
  from assms Inr have u: "set_unlock_at_as_stop_duration now_time s0 = Inr (self, logs)"
    by (simp add: init_def)
  then have "stop_duration_candles self = stop_duration_candles s0"
    by (simp add: set_unlock_at_frame)
  moreover have "\<not> has_key pc ''unlock_at'' \<longrightarrow> self = s0"
    using u pc by (auto simp: set_unlock_at_as_stop_duration_def)
  ultimately show ?thesis using Inr by simp
qed

lemma resolve_window_cases:
  assumes "resolve_window T pc ck mk = Inr (c, m)"
  shows "case map_of pc ck of
           Some v \<Rightarrow> (\<exists>N. py_int v = Inr N \<and> c = Some N \<and> m = T * N)
         | None \<Rightarrow> c = None \<and> py_int (dict_get pc mk (PyInt 60)) = Inr m"
  using assms
  by (auto simp: resolve_window_def has_key_def dict_get_def split: option.splits sum.splits)

text \<open>
  Claim C3, as the code has it. The timeframe is worth \<open>T\<close> minutes and the constructor
  returns an instance. If the protection config has the key \<open>stop_duration_candles\<close>, its
  value converts to an integer \<open>N\<close> (an integer value \<open>N\<close> is its own conversion) and the
  instance's candle count is \<open>N\<close>, whatever \<open>stop_duration\<close> holds; without the key the
  candle count is absent. The stop duration in minutes is \<open>T * N\<close>, respectively the integer
  of \<open>stop_duration\<close> (60 by default), provided the config has no \<open>unlock_at\<close> key: with
  that key the constructor replaces the minutes by the span to the unlock time.
\<close>

theorem init_stop_duration:
  assumes "dict_item config ''timeframe'' = Inr tf" and "timeframe_to_minutes tf = Inr T"
    and "init timeframe_to_minutes now_time config protection_config = Inr (self, logs)"
  shows "(case map_of protection_config ''stop_duration_candles'' of
           Some v \<Rightarrow>
             (\<exists>N. py_int v = Inr N \<and> stop_duration_candles self = Some N
                \<and> (\<not> has_key protection_config ''unlock_at'' \<longrightarrow> stop_duration self = T * N))
         | None \<Rightarrow>
             stop_duration_candles self = None
             \<and> (\<not> has_key protection_config ''unlock_at'' \<longrightarrow>
                  py_int (dict_get protection_config ''stop_duration'' (PyInt 60))
                    = Inr (stop_duration self)))
         \<and> (\<forall>N. map_of protection_config ''stop_duration_candles'' = Some (PyInt N) \<longrightarrow>
               stop_duration_candles self = Some N
               \<and> (\<not> has_key protection_config ''unlock_at'' \<longrightarrow> stop_duration self = T * N))"
proof -
  obtain s0 where s0: "init_windows timeframe_to_minutes config protection_config = Inr s0"
    and c: "stop_duration_candles self = stop_duration_candles s0"
    and e: "\<not> has_key protection_config ''unlock_at'' \<longrightarrow> self = s0"
    using init_from_windows [OF assms(3)] by blast
  have "resolve_window T protection_config ''stop_duration_candles'' ''stop_duration''
       = Inr (stop_duration_candles s0, stop_duration s0)"
    using s0 assms(1,2) by (rule init_windows_stop)
  then have "case map_of protection_config ''stop_duration_candles'' of
           Some v \<Rightarrow> (\<exists>N. py_int v = Inr N \<and> stop_duration_candles s0 = Some N
                        \<and> stop_duration s0 = T * N)
         | None \<Rightarrow> stop_duration_candles s0 = None
                   \<and> py_int (dict_get protection_config ''stop_duration'' (PyInt 60))
                       = Inr (stop_duration s0)"
    by (rule resolve_window_cases)
  with c e show ?thesis by (auto split: option.splits)
qed

theorem init_stop_duration_witness:
  "init example_timeframe_to_minutes example_now example_config
       [(''stop_duration_candles'', PyInt 3), (''stop_duration'', PyInt 45)]
     = Inr (\<lparr>self_config = example_config,
               self_protection_config =
                 [(''stop_duration_candles'', PyInt 3), (''stop_duration'', PyInt 45)],
               stop_duration_candles = Some 3, lookback_period_candles = None,
               unlock_at = None, stop_duration = 15, lookback_period = 60\<rparr>,
            [(WARNING, unlock_at_warning)])
   \<and> (15 :: int) = 5 * 3"
proof -
  have t: "dict_item example_config ''timeframe'' = Inr (PyStr ''5m'')"
    and m: "example_timeframe_to_minutes (PyStr ''5m'') = Inr 5"
    by code_simp+
  have i: "init example_timeframe_to_minutes example_now example_config
       [(''stop_duration_candles'', PyInt 3), (''stop_duration'', PyInt 45)]
     = Inr (\<lparr>self_config = example_config,
               self_protection_config =
                 [(''stop_duration_candles'', PyInt 3), (''stop_duration'', PyInt 45)],
               stop_duration_candles = Some 3, lookback_period_candles = None,
               unlock_at = None, stop_duration = 15, lookback_period = 60\<rparr>,
            [(WARNING, unlock_at_warning)])"
    by code_simp
  show ?thesis
    using i init_stop_duration [OF t m i] by simp
qed

text \<open>
  The claim as stated fails when the protection config also has \<open>unlock_at\<close>: with a
  timeframe of 5 minutes, \<open>stop_duration_candles = 2\<close> and \<open>unlock_at = "09:00"\<close>, constructed
  on 2024-01-15 at 10:00 UTC, the stop duration is 1380 minutes and not \<open>5 * 2\<close>.
\<close>

theorem init_stop_duration_overridden:
  "init example_timeframe_to_minutes example_now example_config
       [(''unlock_at'', PyStr ''09:00''), (''stop_duration_candles'', PyInt 2)]
     = Inr (\<lparr>self_config = example_config,
               self_protection_config =
                 [(''unlock_at'', PyStr ''09:00''), (''stop_duration_candles'', PyInt 2)],
               stop_duration_candles = Some 2, lookback_period_candles = None,
               unlock_at = Some (example_now\<lparr>day := 16, hour := 9\<rparr>),
               stop_duration = 1380, lookback_period = 60\<rparr>, [])
   \<and> dict_item example_config ''timeframe'' = Inr (PyStr ''5m'')
   \<and> example_timeframe_to_minutes (PyStr ''5m'') = Inr 5 \<and> (1380 :: int) \<noteq> 5 * 2"
  by code_simp

section \<open>\<open>stop_duration_str\<close>\<close>

lemma str_int_small:
  "str_int 0 = ''0''" "str_int 1 = ''1''" "str_int 2 = ''2''" "str_int 60 = ''60''"
  by code_simp+

text \<open>
  Claim C8, as the code has it. \<open>stop_duration_str\<close> renders the candle form, the count
  followed by what the pluralization helper makes of it, when the candle count is set
  and is not 0; when it is absent or 0 it renders the minute form over the stop duration.
  With the helper of the spec: 1 candle gives \<open>"1 candle"\<close>, 2 candles give \<open>"2 candles"\<close>,
  1 minute gives \<open>"1 minute"\<close> and 60 minutes give \<open>"60 minutes"\<close>.
\<close>

theorem stop_duration_str_forms:
  "(\<forall>n. stop_duration_candles self = Some n \<and> n \<noteq> 0 \<longrightarrow>
       stop_duration_str plural_fn self = str_int n @ '' '' @ plural_fn n ''candle'' ''candles'')
   \<and> (stop_duration_candles self = None \<or> stop_duration_candles self = Some 0 \<longrightarrow>
       stop_duration_str plural_fn self
         = str_int (stop_duration self) @ '' ''
             @ plural_fn (stop_duration self) ''minute'' ''minutes'')
   \<and> (stop_duration_candles self = Some 1 \<longrightarrow> stop_duration_str plural self = ''1 candle'')
   \<and> (stop_duration_candles self = Some 2 \<longrightarrow> stop_duration_str plural self = ''2 candles'')
   \<and> (stop_duration_candles self = None \<and> stop_duration self = 1 \<longrightarrow>
       stop_duration_str plural self = ''1 minute'')
   \<and> (stop_duration_candles self = None \<and> stop_duration self = 60 \<longrightarrow>
       stop_duration_str plural self = ''60 minutes'')"
  by (auto simp: stop_duration_str_def truthy_def plural_def str_int_small)

theorem stop_duration_str_forms_witness:
  "stop_duration_str plural
     \<lparr>self_config = example_config,
      self_protection_config = [(''stop_duration_candles'', PyInt 2)],
      stop_duration_candles = Some 2, lookback_period_candles = None, unlock_at = None,
      stop_duration = 10, lookback_period = 60\<rparr> = ''2 candles''
   \<and> stop_duration_str plural
     \<lparr>self_config = example_config, self_protection_config = [],
      stop_duration_candles = None, lookback_period_candles = None, unlock_at = None,
      stop_duration = 60, lookback_period = 60\<rparr> = ''60 minutes''"
proof -
  have a: "stop_duration_str plural
     \<lparr>self_config = example_config,
      self_protection_config = [(''stop_duration_candles'', PyInt 2)],
      stop_duration_candles = Some 2, lookback_period_candles = None, unlock_at = None,
      stop_duration = 10, lookback_period = 60\<rparr> = ''2 candles''"
    using stop_duration_str_forms [THEN conjunct2, THEN conjunct2, THEN conjunct2, THEN conjunct1,
      of "\<lparr>self_config = example_config,
           self_protection_config = [(''stop_duration_candles'', PyInt 2)],
           stop_duration_candles = Some 2, lookback_period_candles = None, unlock_at = None,
           stop_duration = 10, lookback_period = 60\<rparr>"]
    by simp
  have b: "stop_duration_str plural
     \<lparr>self_config = example_config, self_protection_config = [],
      stop_duration_candles = None, lookback_period_candles = None, unlock_at = None,
      stop_duration = 60, lookback_period = 60\<rparr> = ''60 minutes''"
    using stop_duration_str_forms [THEN conjunct2, THEN conjunct2, THEN conjunct2, THEN conjunct2,
      THEN conjunct2,
      of "\<lparr>self_config = example_config, self_protection_config = [],
           stop_duration_candles = None, lookback_period_candles = None, unlock_at = None,
           stop_duration = 60, lookback_period = 60\<rparr>"]
    by simp
  from a b show ?thesis by (rule conjI)
qed

text \<open>
  The claim as stated fails for a candle count of 0: the configuration is candle-based
  (\<open>stop_duration_candles = 0\<close>, so the count is set), and the rendering is the minute
  form \<open>"0 minutes"\<close>.
\<close>

theorem stop_duration_str_zero_candles:
  "init example_timeframe_to_minutes example_now example_config
       [(''stop_duration_candles'', PyInt 0)]
     = Inr (\<lparr>self_config = example_config,
               self_protection_config = [(''stop_duration_candles'', PyInt 0)],
               stop_duration_candles = Some 0, lookback_period_candles = None,
               unlock_at = None, stop_duration = 0, lookback_period = 60\<rparr>,
            [(WARNING, unlock_at_warning)])
   \<and> stop_duration_str plural
         \<lparr>self_config = example_config,
          self_protection_config = [(''stop_duration_candles'', PyInt 0)],
          stop_duration_candles = Some 0, lookback_period_candles = None,
          unlock_at = None, stop_duration = 0, lookback_period = 60\<rparr> = ''0 minutes''"
  by code_simp

section \<open>\<open>calculate_unlock_at\<close> on the last day of a month\<close>

text \<open>
  Claim C1. On the last day of a month, with an unlock time earlier than the current
  time of day, \<open>calculate_unlock_at\<close> does not reach the first day of the following month:
  \<open>replace(day=now_time.day + 1)\<close> asks for a day past the end of the month, and the method
  raises \<open>ValueError\<close>.
\<close>

theorem calculate_unlock_at_month_end:
  assumes "day now_time = days_in_month (year now_time) (month now_time)"
    and "strptime_HM (py_str (dict_get (self_protection_config self) ''unlock_at'' PyNone))
           = Inr parsed"
    and "time_lt parsed now_time"
  shows "calculate_unlock_at now_time self = Inl ValueError"
  using assms
  by (auto simp: calculate_unlock_at_def datetime_new_def time_lt_def valid_datetime_def
      valid_date_def split: sum.splits)

theorem calculate_unlock_at_month_end_witness:
  "calculate_unlock_at example_month_end
     \<lparr>self_config = example_config, self_protection_config = [(''unlock_at'', PyStr ''09:00'')],
      stop_duration_candles = None, lookback_period_candles = None, unlock_at = None,
      stop_duration = 60, lookback_period = 60\<rparr> = Inl ValueError"
proof -
  have d: "day example_month_end
             = days_in_month (year example_month_end) (month example_month_end)"
    by code_simp
  have p: "strptime_HM (py_str (dict_get (self_protection_config
       \<lparr>self_config = example_config, self_protection_config = [(''unlock_at'', PyStr ''09:00'')],
        stop_duration_candles = None, lookback_period_candles = None, unlock_at = None,
        stop_duration = 60, lookback_period = 60\<rparr>) ''unlock_at'' PyNone))
     = Inr \<lparr>year = 1900, month = 1, day = 1, hour = 9, minute = 0, second = 0,
            microsecond = 0, tzinfo = None\<rparr>"
    by code_simp
  have l: "time_lt \<lparr>year = 1900, month = 1, day = 1, hour = 9, minute = 0, second = 0,
            microsecond = 0, tzinfo = None\<rparr> example_month_end"
    by code_simp
  show ?thesis
    using calculate_unlock_at_month_end [OF d p l] .
qed

section \<open>Rounding to a double\<close>

lemma int_succ_le_rat: "(a::int) + 1 \<le> b \<Longrightarrow> (of_int a :: rat) + 1 \<le> of_int b"
  by linarith

lemma int_le_rat: "(a::int) \<le> b \<Longrightarrow> (of_int a :: rat) \<le> of_int b"
  by linarith


lemma rhe_cases:
  fixes z :: rat
  defines "f \<equiv> \<lfloor>z\<rfloor>"
  shows "(round_half_even z = f \<and> z - of_int f \<le> 1 / 2)
         \<or> (round_half_even z = f + 1 \<and> 1 / 2 \<le> z - of_int f)"
  unfolding round_half_even_def Let_def f_def by auto

lemma rhe_nearest: "\<bar>of_int (round_half_even z) - z\<bar> \<le> \<bar>of_int j - z\<bar>"
proof -
  define f where "f = \<lfloor>z\<rfloor>"
  have f1: "of_int f \<le> z" and f2: "z < of_int f + 1"
    unfolding f_def by linarith+
  have "j \<le> f \<or> f + 1 \<le> j" by linarith
  then have j: "(of_int j :: rat) \<le> of_int f \<or> (of_int f :: rat) + 1 \<le> of_int j"
    using int_le_rat [of j f] int_succ_le_rat [of f j] by blast
  from rhe_cases [of z]
  have "(round_half_even z = f \<and> z - of_int f \<le> 1 / 2)
         \<or> (round_half_even z = f + 1 \<and> 1 / 2 \<le> z - of_int f)"
    unfolding f_def .
  then show ?thesis
  proof
    assume a: "round_half_even z = f \<and> z - of_int f \<le> 1 / 2"
    then have r: "(of_int (round_half_even z) :: rat) = of_int f" by simp
    from j show ?thesis
    proof
      assume "(of_int j :: rat) \<le> of_int f"
      with a f1 f2 show ?thesis unfolding r by linarith
    next
      assume "(of_int f :: rat) + 1 \<le> of_int j"
      with a f1 f2 show ?thesis unfolding r by linarith
    qed
  next
    assume a: "round_half_even z = f + 1 \<and> 1 / 2 \<le> z - of_int f"
    then have r: "(of_int (round_half_even z) :: rat) = of_int f + 1" by simp
    from j show ?thesis
    proof
      assume "(of_int j :: rat) \<le> of_int f"
      with a f1 f2 show ?thesis unfolding r by linarith
    next
      assume "(of_int f :: rat) + 1 \<le> of_int j"
      with a f1 f2 show ?thesis unfolding r by linarith
    qed
  qed
qed

lemma rhe_ge: assumes "of_int a \<le> z" shows "a \<le> round_half_even z"
proof (rule ccontr)
  assume "\<not> a \<le> round_half_even z"
  then have "round_half_even z + 1 \<le> a" by simp
  then have "(of_int (round_half_even z) :: rat) + 1 \<le> of_int a"
    by (rule int_succ_le_rat)
  with assms rhe_nearest [of z a] show False by (simp add: abs_if split: if_splits)
qed

lemma rhe_le: assumes "z \<le> of_int b" shows "round_half_even z \<le> b"
proof (rule ccontr)
  assume "\<not> round_half_even z \<le> b"
  then have "b + 1 \<le> round_half_even z" by simp
  then have "(of_int b :: rat) + 1 \<le> of_int (round_half_even z)"
    by (rule int_succ_le_rat)
  with assms rhe_nearest [of z b] show False by (simp add: abs_if split: if_splits)
qed

lemma two_powi_pos [simp]: "0 < (2::rat) powi c"
  by (simp add: zero_less_power_int)

lemma powi_shift: "(2::rat) powi a = 2 powi (a - b) * 2 powi b"
  using power_int_add [of "2::rat" "a - b" b] by simp

lemma ilog2_bounds:
  assumes "0 < x"
  shows "2 powi (ilog2 x) \<le> x" and "x < 2 powi (ilog2 x + 1)"
proof -
  show "2 powi (ilog2 x) \<le> x"
  proof (cases "1 \<le> x")
    case True
    define n where "n = \<lfloor>x\<rfloor>"
    have nx: "of_int n \<le> x" unfolding n_def by simp
    have n: "0 < n" unfolding n_def using True by linarith
    then have b: "0 \<le> bitlen n - 1" by (simp add: bitlen_alt_def)
    from bitlen_bounds [OF n] have "2 ^ nat (bitlen n - 1) \<le> n" by simp
    then have "(2::rat) ^ nat (bitlen n - 1) \<le> of_int n" by simp
    also note nx
    finally have "(2::rat) ^ nat (bitlen n - 1) \<le> x" .
    then have "(2::rat) powi (bitlen n - 1) \<le> x"
      using b by (simp add: power_int_nonneg_exp)
    then show ?thesis using True by (simp add: ilog2_def n_def)
  next
    case False
    define N where "N = \<lceil>1 / x\<rceil>"
    have Nx: "1 / x \<le> of_int N" unfolding N_def by simp
    have "1 < 1 / x" using False assms by (simp add: field_simps)
    with Nx have "(1::rat) < of_int N" by linarith
    then have n: "0 < N - 1" by simp
    have k: "0 \<le> bitlen (N - 1)" by (rule bitlen_nonneg)
    from bitlen_bounds [OF n] have "N - 1 < 2 ^ nat (bitlen (N - 1))" by simp
    then have "N \<le> 2 ^ nat (bitlen (N - 1))" by simp
    then have "(of_int N :: rat) \<le> 2 ^ nat (bitlen (N - 1))" by simp
    with Nx have "1 / x \<le> 2 ^ nat (bitlen (N - 1))" by (rule order_trans)
    then have "1 / 2 ^ nat (bitlen (N - 1)) \<le> x"
      using assms by (simp add: field_simps)
    then have "(2::rat) powi (- bitlen (N - 1)) \<le> x"
      using k by (simp add: power_int_minus_divide power_int_nonneg_exp)
    then show ?thesis using False by (simp add: ilog2_def N_def)
  qed
  show "x < 2 powi (ilog2 x + 1)"
  proof (cases "1 \<le> x")
    case True
    define n where "n = \<lfloor>x\<rfloor>"
    have nx: "x < of_int n + 1" unfolding n_def by linarith
    have n: "0 < n" unfolding n_def using True by linarith
    have b: "0 \<le> bitlen n" by (rule bitlen_nonneg)
    from bitlen_bounds [OF n] have "n + 1 \<le> 2 ^ nat (bitlen n)" by simp
    then have "(of_int n :: rat) + 1 \<le> 2 ^ nat (bitlen n)"
      using int_succ_le_rat [of n "2 ^ nat (bitlen n)"] by simp
    with nx have "x < (2::rat) ^ nat (bitlen n)" by (rule less_le_trans)
    then have "x < (2::rat) powi (bitlen n)"
      using b by (simp add: power_int_nonneg_exp)
    then show ?thesis using True by (simp add: ilog2_def n_def)
  next
    case False
    define N where "N = \<lceil>1 / x\<rceil>"
    have Nx: "1 / x \<le> of_int N" and Nx': "of_int N - 1 < 1 / x" unfolding N_def by linarith+
    have "1 < 1 / x" using False assms by (simp add: field_simps)
    with Nx have "(1::rat) < of_int N" by linarith
    then have n: "0 < N - 1" by simp
    then have k: "0 \<le> bitlen (N - 1) - 1" by (simp add: bitlen_alt_def)
    from bitlen_bounds [OF n] have "2 ^ nat (bitlen (N - 1) - 1) \<le> N - 1" by simp
    then have "(2::rat) ^ nat (bitlen (N - 1) - 1) \<le> of_int N - 1"
      using int_le_rat [of "2 ^ nat (bitlen (N - 1) - 1)" "N - 1"] by simp
    then have "2 ^ nat (bitlen (N - 1) - 1) < 1 / x" using Nx' by (rule le_less_trans)
    then have "x < 1 / 2 ^ nat (bitlen (N - 1) - 1)"
      using assms by (simp add: field_simps)
    moreover have "(2::rat) powi (- (bitlen (N - 1) - 1)) = 1 / 2 ^ nat (bitlen (N - 1) - 1)"
      using k by (simp only: power_int_minus_divide power_int_nonneg_exp)
    ultimately have "x < (2::rat) powi (- (bitlen (N - 1) - 1))" by (simp only:)
    moreover have "- bitlen (N - 1) + 1 = - (bitlen (N - 1) - 1)" by simp
    ultimately have "x < (2::rat) powi (- bitlen (N - 1) + 1)" by (simp only:)
    then show ?thesis using False by (simp add: ilog2_def N_def)
  qed
qed

lemma ilog2_le: assumes "0 < x" and "x < 2 powi (c + 1)" shows "ilog2 x \<le> c"
proof (rule ccontr)
  assume "\<not> ilog2 x \<le> c"
  then have "c + 1 \<le> ilog2 x" by simp
  then have "(2::rat) powi (c + 1) \<le> 2 powi (ilog2 x)"
    by (intro power_int_increasing) auto
  with ilog2_bounds(1) [OF assms(1)] assms(2) show False by simp
qed

lemma ilog2_ge: assumes "2 powi c \<le> x" shows "c \<le> ilog2 x"
proof (rule ccontr)
  have x: "0 < x" using assms two_powi_pos [of c] by linarith
  assume "\<not> c \<le> ilog2 x"
  then have "ilog2 x + 1 \<le> c" by simp
  then have "(2::rat) powi (ilog2 x + 1) \<le> 2 powi c"
    by (intro power_int_increasing) auto
  with ilog2_bounds(2) [OF x] assms show False by simp
qed


lemma fl_pos_mantissa:
  assumes "0 < x"
  shows "2 ^ 52 \<le> round_half_even (x / 2 powi (ilog2 x - 52))"
    and "round_half_even (x / 2 powi (ilog2 x - 52)) \<le> 2 ^ 53"
proof -
  define e where "e = ilog2 x"
  define u :: rat where "u = 2 powi (e - 52)"
  have u: "0 < u" unfolding u_def by simp
  have lo: "2 powi e \<le> x" and hi: "x < 2 powi (e + 1)"
    unfolding e_def using ilog2_bounds [OF assms] by simp_all
  have "(2::rat) powi e = 2 powi 52 * u"
    unfolding u_def using powi_shift [of e "e - 52"] by simp
  with lo u have "2 powi 52 \<le> x / u" by (simp add: field_simps)
  then have "of_int (2 ^ 52) \<le> x / u" by simp
  then show "2 ^ 52 \<le> round_half_even (x / 2 powi (ilog2 x - 52))"
    unfolding u_def e_def by (rule rhe_ge)
  have "(2::rat) powi (e + 1) = 2 powi 53 * u"
    unfolding u_def using powi_shift [of "e + 1" "e - 52"] by simp
  with hi u have "x / u \<le> 2 powi 53" by (simp add: field_simps)
  then have "x / u \<le> of_int (2 ^ 53)" by simp
  then show "round_half_even (x / 2 powi (ilog2 x - 52)) \<le> 2 ^ 53"
    unfolding u_def e_def by (rule rhe_le)
qed

lemma fl_pos_eq: "0 < x \<Longrightarrow> fl x = of_int (round_half_even (x / 2 powi (ilog2 x - 52))) * 2 powi (ilog2 x - 52)"
  by (simp add: fl_def fl_pos_def Let_def)

lemma fl_ge_binade:
  assumes "0 < x" shows "2 powi (ilog2 x) \<le> fl x"
proof -
  have "(of_int (2 ^ 52) :: rat) \<le> of_int (round_half_even (x / 2 powi (ilog2 x - 52)))"
    using fl_pos_mantissa(1) [OF assms] by (rule int_le_rat)
  then have "2 powi 52 * 2 powi (ilog2 x - 52) \<le> fl x"
    unfolding fl_pos_eq [OF assms] by (intro mult_right_mono) simp_all
  then show ?thesis using powi_shift [of "ilog2 x" "ilog2 x - 52"] by simp
qed

lemma fl_le_binade:
  assumes "0 < x" shows "fl x \<le> 2 powi (ilog2 x + 1)"
proof -
  have "(of_int (round_half_even (x / 2 powi (ilog2 x - 52))) :: rat) \<le> of_int (2 ^ 53)"
    using fl_pos_mantissa(2) [OF assms] by (rule int_le_rat)
  then have "fl x \<le> 2 powi 53 * 2 powi (ilog2 x - 52)"
    unfolding fl_pos_eq [OF assms] by (intro mult_right_mono) simp_all
  then show ?thesis using powi_shift [of "ilog2 x + 1" "ilog2 x - 52"] by simp
qed

lemma fl_nearest_grid:
  assumes "0 < x" and "ilog2 x - 52 \<le> c"
  shows "\<bar>fl x - x\<bar> \<le> \<bar>of_int j * 2 powi c - x\<bar>"
proof -
  define u :: rat where "u = 2 powi (ilog2 x - 52)"
  define J where "J = j * 2 ^ nat (c - (ilog2 x - 52))"
  have u: "0 < u" unfolding u_def by simp
  have "(2::rat) powi c = 2 powi (c - (ilog2 x - 52)) * u"
    unfolding u_def by (rule powi_shift)
  also have "(2::rat) powi (c - (ilog2 x - 52)) = 2 ^ nat (c - (ilog2 x - 52))"
    using assms(2) by (simp add: power_int_nonneg_exp)
  finally have r: "of_int j * 2 powi c = of_int J * u"
    unfolding J_def by simp
  have "\<bar>of_int (round_half_even (x / u)) - x / u\<bar> \<le> \<bar>of_int J - x / u\<bar>"
    by (rule rhe_nearest)
  then have "\<bar>of_int (round_half_even (x / u)) - x / u\<bar> * u \<le> \<bar>of_int J - x / u\<bar> * u"
    using u by (intro mult_right_mono) simp_all
  moreover have "\<bar>a - x / u\<bar> * u = \<bar>a * u - x\<bar>" for a
  proof -
    have "\<bar>a - x / u\<bar> * u = \<bar>(a - x / u) * u\<bar>" using u by (simp add: abs_mult)
    also have "(a - x / u) * u = a * u - x" using u by (simp add: field_simps)
    finally show ?thesis .
  qed
  ultimately show ?thesis
    unfolding r fl_pos_eq [OF assms(1)] u_def by simp
qed

lemma fl_minus: "fl (- x) = - fl x"
  by (simp add: fl_def)

lemma fl_nonneg: assumes "0 \<le> x" shows "0 \<le> fl x"
proof (cases "x = 0")
  case True then show ?thesis by (simp add: fl_def)
next
  case False
  with assms have x: "0 < x" by simp
  have "0 < (2::rat) powi (ilog2 x)" by simp
  with fl_ge_binade [OF x] show ?thesis by linarith
qed

text \<open>
  The two roundings of \<open>total_seconds() / 60\<close> do not reach the next whole minute, for a
  span of less than 286331153 minutes (about 544 years).
\<close>

lemma timespan_pos:
  fixes n :: int
  assumes n0: "0 < n" and nb: "n < 17179869180000000"
  shows "int_of_float (float_div (total_seconds n) 60) = n div 60000000"
proof -
  define k where "k = n div 60000000"
  define x :: rat where "x = of_int n / 1000000"
  define y where "y = fl x"
  define w where "w = y / 60"
  define z where "z = fl w"
  define e where "e = ilog2 x"
  define u :: rat where "u = 2 powi (e - 52)"
  have u0: "0 < u" unfolding u_def by simp
  have k0: "0 \<le> k" and kb: "k \<le> 286331152"
    using n0 nb unfolding k_def by simp_all
  have n1: "60000000 * k \<le> n" and n2: "n + 1 \<le> 60000000 * (k + 1)"
    unfolding k_def by simp_all
  have x0: "0 < x" unfolding x_def using n0 by simp
  have "(of_int (60000000 * k) :: rat) \<le> of_int n" using n1 by (rule int_le_rat)
  then have xl: "60 * of_int k \<le> x" unfolding x_def by simp
  have "(of_int n :: rat) + 1 \<le> of_int (60000000 * (k + 1))" using n2 by (rule int_succ_le_rat)
  then have xu: "x \<le> (60 * of_int k + 60) - 1 / 1000000" unfolding x_def by (simp add: field_simps)
  have kr: "(of_int k :: rat) \<le> 286331152" using int_le_rat [OF kb] by simp
  have k0r: "(0 :: rat) \<le> of_int k" using k0 by simp
  have "x < 17179869184" using xu kr by linarith
  then have xb: "x < 2 powi (33 + 1)" by simp
  have e33: "e \<le> 33" unfolding e_def using x0 xb by (rule ilog2_le)
  \<comment> \<open>the first rounding\<close>
  have "\<bar>y - x\<bar> \<le> \<bar>of_int (60 * k) * 2 powi 0 - x\<bar>"
    unfolding y_def using x0 e33 by (intro fl_nearest_grid) (simp_all add: e_def)
  then have yl: "60 * of_int k \<le> y" using xl by simp
  have "\<bar>y - x\<bar> \<le> \<bar>of_int (60 * (k + 1) * 524288 - 1) * 2 powi (- 19) - x\<bar>"
    unfolding y_def using x0 e33 by (intro fl_nearest_grid) (simp_all add: e_def)
  moreover have "of_int (60 * (k + 1) * 524288 - 1) * (2::rat) powi (- 19)
      = (60 * of_int k + 60) - 1 / 524288"
    by (simp add: power_int_minus_divide field_simps)
  ultimately have "\<bar>y - x\<bar> \<le> \<bar>(60 * of_int k + 60) - 1 / 524288 - x\<bar>" by (simp only:)
  then have yu: "y < (60 * of_int k + 60)" using xu by linarith
  \<comment> \<open>the first result lies on the grid of its exponent, below the next multiple of 60\<close>
  define q where "q = round_half_even (x / 2 powi (ilog2 x - 52))"
  have yq: "y = of_int q * u"
    unfolding y_def q_def u_def e_def using x0 by (rule fl_pos_eq)
  have "(2::rat) powi (52 - e) = 2 ^ nat (52 - e)"
    using e33 by (simp add: power_int_nonneg_exp)
  moreover have "(2::rat) powi (52 - e) * u = 1"
    unfolding u_def using power_int_add [of "2::rat" "52 - e" "e - 52"] by simp
  ultimately have g1: "(2::rat) ^ nat (52 - e) * u = 1" by simp
  define M where "M = 60 * (k + 1) * 2 ^ nat (52 - e)"
  have Mu: "of_int M * u = (60 * of_int k + 60)"
  proof -
    have "of_int M * u = (60 * of_int k + 60) * (2 ^ nat (52 - e) * u)"
      unfolding M_def by simp
    then show ?thesis unfolding g1 by simp
  qed
  have "of_int q * u < of_int M * u" using yu unfolding yq Mu .
  then have "(of_int q :: rat) < of_int M" using u0 by (simp add: mult_less_cancel_right)
  then have "q + 1 \<le> M" by simp
  then have "(of_int q :: rat) + 1 \<le> of_int M" by (rule int_succ_le_rat)
  then have "(of_int q + 1) * u \<le> of_int M * u" using u0 by (intro mult_right_mono) simp_all
  then have yg: "y \<le> (60 * of_int k + 60) - u" unfolding yq Mu by (simp add: algebra_simps)
  \<comment> \<open>the second rounding\<close>
  have y0: "0 < y"
    using fl_ge_binade [OF x0] two_powi_pos [of "ilog2 x"] unfolding y_def by linarith
  have w0: "0 < w" unfolding w_def using y0 by simp
  have wl: "of_int k \<le> w" unfolding w_def using yl by simp
  have wu: "w \<le> of_int k + 1 - u / 60" unfolding w_def using yg by simp
  have "y \<le> 2 powi (e + 1)" unfolding y_def e_def using x0 by (rule fl_le_binade)
  moreover have "(2::rat) powi (e + 1) = 32 * 2 powi (e - 4)"
    using powi_shift [of "e + 1" "e - 4"] by simp
  ultimately have "w \<le> 32 * 2 powi (e - 4) / 60" unfolding w_def by simp
  moreover have "0 < (2::rat) powi (e - 4)" by simp
  ultimately have "w < 2 powi (e - 4)" by linarith
  then have "w < 2 powi ((e - 5) + 1)" by simp
  with w0 have e': "ilog2 w \<le> e - 5" by (rule ilog2_le)
  have "\<bar>z - w\<bar> \<le> \<bar>of_int k * 2 powi 0 - w\<bar>"
    unfolding z_def using w0 e' e33 by (intro fl_nearest_grid) simp_all
  then have zl: "of_int k \<le> z" using wl by simp
  define j where "j = (k + 1) * 2 ^ nat (57 - e) - 1"
  have "\<bar>z - w\<bar> \<le> \<bar>of_int j * 2 powi (e - 57) - w\<bar>"
    unfolding z_def using w0 e' by (intro fl_nearest_grid) simp_all
  moreover have "of_int j * (2::rat) powi (e - 57) = of_int k + 1 - u / 32"
  proof -
    have "(2::rat) powi (57 - e) = 2 ^ nat (57 - e)"
      using e33 by (simp add: power_int_nonneg_exp)
    moreover have "(2::rat) powi (57 - e) * 2 powi (e - 57) = 1"
      using power_int_add [of "2::rat" "57 - e" "e - 57"] by simp
    ultimately have a: "(2::rat) ^ nat (57 - e) * 2 powi (e - 57) = 1" by simp
    have b: "u = 32 * 2 powi (e - 57)"
      unfolding u_def using powi_shift [of "e - 52" "e - 57"] by simp
    have "of_int j * (2::rat) powi (e - 57)
        = (of_int k + 1) * (2 ^ nat (57 - e) * 2 powi (e - 57)) - 2 powi (e - 57)"
      unfolding j_def by (simp add: algebra_simps)
    then show ?thesis unfolding a b by simp
  qed
  ultimately have "\<bar>z - w\<bar> \<le> \<bar>of_int k + 1 - u / 32 - w\<bar>" by (simp only:)
  then have zu: "z < of_int k + 1" using wu u0 by linarith
  have "\<lfloor>z\<rfloor> = k" using zl zu by linarith
  moreover have "0 \<le> z" using zl k0r by linarith
  ultimately have "int_of_float z = k" by (simp add: int_of_float_def)
  then show ?thesis
    unfolding z_def w_def y_def x_def k_def total_seconds_def float_div_def .
qed

section \<open>\<open>ord2ymd\<close> inverts \<open>ymd2ord\<close>\<close>

lemma year_divs:
  fixes a b c d :: int
  assumes "0 \<le> b" "b \<le> 3" "0 \<le> c" "c \<le> 24" "0 \<le> d" "d \<le> 3"
  shows "(400 * a + 100 * b + 4 * c + d) div 4 = 100 * a + 25 * b + c"
    and "(400 * a + 100 * b + 4 * c + d) div 100 = 4 * a + b"
    and "(400 * a + 100 * b + 4 * c + d) div 400 = a"
proof -
  show "(400 * a + 100 * b + 4 * c + d) div 4 = 100 * a + 25 * b + c"
    using assms by (intro int_div_pos_eq [where r = d]) simp_all
  show "(400 * a + 100 * b + 4 * c + d) div 100 = 4 * a + b"
    using assms by (intro int_div_pos_eq [where r = "4 * c + d"]) simp_all
  show "(400 * a + 100 * b + 4 * c + d) div 400 = a"
    using assms by (intro int_div_pos_eq [where r = "100 * b + 4 * c + d"]) simp_all
qed

lemma days_before_year_cycles:
  fixes a b c d :: int
  assumes "0 \<le> b" "b \<le> 3" "0 \<le> c" "c \<le> 24" "0 \<le> d" "d \<le> 3"
  shows "days_before_year (400 * a + 100 * b + 4 * c + d + 1)
           = 146097 * a + 36524 * b + 1461 * c + 365 * d"
  using year_divs [OF assms, of a] by (simp add: days_before_year_def)

lemma year_mods:
  fixes a b c d :: int
  assumes "0 \<le> b" "b \<le> 3" "0 \<le> c" "c \<le> 24" "0 \<le> d" "d \<le> 2"
  shows "(400 * a + 100 * b + 4 * c + d + 1) mod 4 = d + 1"
  using assms by (intro int_mod_pos_eq [where q = "100 * a + 25 * b + c"]) simp_all

lemma not_leap_cycles:
  fixes a b c d :: int
  assumes "0 \<le> b" "b \<le> 3" "0 \<le> c" "c \<le> 24" "0 \<le> d" "d \<le> 2"
  shows "\<not> is_leap (400 * a + 100 * b + 4 * c + d + 1)"
  using year_mods [OF assms, of a] assms by (simp add: is_leap_def)

lemma leap_cycles:
  fixes a b c :: int
  assumes "0 \<le> b" "b \<le> 3" "0 \<le> c" "c \<le> 24"
  shows "is_leap (400 * a + 100 * b + 4 * c + 3 + 1) = (c \<noteq> 24 \<or> b = 3)"
proof -
  let ?y = "400 * a + 100 * b + 4 * c + 3 + 1"
  have m4: "?y mod 4 = 0"
    by (intro int_mod_pos_eq [where q = "100 * a + 25 * b + c + 1"]) simp_all
  show ?thesis
  proof (cases "c = 24")
    case False
    with assms have "?y mod 100 = 4 * c + 4"
      by (intro int_mod_pos_eq [where q = "4 * a + b"]) simp_all
    with False assms m4 show ?thesis by (simp add: is_leap_def)
  next
    case True
    then have m100: "?y mod 100 = 0"
      by (intro int_mod_pos_eq [where q = "4 * a + b + 1"]) simp_all
    show ?thesis
    proof (cases "b = 3")
      case True
      with \<open>c = 24\<close> have "?y mod 400 = 0"
        by (intro int_mod_pos_eq [where q = "a + 1"]) simp_all
      with True m4 m100 show ?thesis by (simp add: is_leap_def)
    next
      case False
      with \<open>c = 24\<close> assms have "?y mod 400 = 100 * b + 100"
        by (intro int_mod_pos_eq [where q = a]) simp_all
      with False \<open>c = 24\<close> assms m4 m100 show ?thesis by (simp add: is_leap_def)
    qed
  qed
qed

lemma days_before_month_table:
  "days_before_month y 1 = 0"
  "days_before_month y 2 = 31"
  "days_before_month y 3 = 59 + (if is_leap y then 1 else 0)"
  "days_before_month y 4 = 90 + (if is_leap y then 1 else 0)"
  "days_before_month y 5 = 120 + (if is_leap y then 1 else 0)"
  "days_before_month y 6 = 151 + (if is_leap y then 1 else 0)"
  "days_before_month y 7 = 181 + (if is_leap y then 1 else 0)"
  "days_before_month y 8 = 212 + (if is_leap y then 1 else 0)"
  "days_before_month y 9 = 243 + (if is_leap y then 1 else 0)"
  "days_before_month y 10 = 273 + (if is_leap y then 1 else 0)"
  "days_before_month y 11 = 304 + (if is_leap y then 1 else 0)"
  "days_before_month y 12 = 334 + (if is_leap y then 1 else 0)"
  by (simp_all add: days_before_month_def)

lemma month_of_day:
  fixes r y :: int
  assumes "0 \<le> r" and "r \<le> 364"
  defines "m \<equiv> (r + 50) div 32"
  defines "m' \<equiv> (if r < days_before_month y m then m - 1 else m)"
  shows "1 \<le> m' \<and> m' \<le> 12 \<and> days_before_month y m' \<le> r
         \<and> r < days_before_month y m' + days_in_month y m'"
proof -
  have d: "r + 50 = 32 * m + (r + 50) mod 32" unfolding m_def by simp
  have lo: "32 * m \<le> r + 50" and hi: "r + 50 < 32 * m + 32"
    using d pos_mod_sign [of 32 "r + 50"] pos_mod_bound [of 32 "r + 50"] by linarith+
  have "1 \<le> m" "m \<le> 12" using lo hi assms(1,2) by linarith+
  then consider "m = 1" | "m = 2" | "m = 3" | "m = 4" | "m = 5" | "m = 6" | "m = 7" | "m = 8"
    | "m = 9" | "m = 10" | "m = 11" | "m = 12"
    by atomize_elim presburger
  then show ?thesis
  proof cases
    case 1 with lo hi assms(1,2) show ?thesis
      unfolding m'_def by (simp add: days_before_month_table days_in_month_def)
  next
    case 2 with lo hi assms(1,2) show ?thesis
      unfolding m'_def by (simp add: days_before_month_table days_in_month_def)
  next
    case 3 with lo hi assms(1,2) show ?thesis
      unfolding m'_def by (simp add: days_before_month_table days_in_month_def)
  next
    case 4 with lo hi assms(1,2) show ?thesis
      unfolding m'_def by (simp add: days_before_month_table days_in_month_def)
  next
    case 5 with lo hi assms(1,2) show ?thesis
      unfolding m'_def by (simp add: days_before_month_table days_in_month_def)
  next
    case 6 with lo hi assms(1,2) show ?thesis
      unfolding m'_def by (simp add: days_before_month_table days_in_month_def)
  next
    case 7 with lo hi assms(1,2) show ?thesis
      unfolding m'_def by (simp add: days_before_month_table days_in_month_def)
  next
    case 8 with lo hi assms(1,2) show ?thesis
      unfolding m'_def by (simp add: days_before_month_table days_in_month_def)
  next
    case 9 with lo hi assms(1,2) show ?thesis
      unfolding m'_def by (simp add: days_before_month_table days_in_month_def)
  next
    case 10 with lo hi assms(1,2) show ?thesis
      unfolding m'_def by (simp add: days_before_month_table days_in_month_def)
  next
    case 11 with lo hi assms(1,2) show ?thesis
      unfolding m'_def by (simp add: days_before_month_table days_in_month_def)
  next
    case 12 with lo hi assms(1,2) show ?thesis
      unfolding m'_def by (simp add: days_before_month_table days_in_month_def)
  qed
qed

lemma ord2ymd_correct:
  assumes "1 \<le> n0" and "n0 \<le> MAXORDINAL"
  shows "case ord2ymd n0 of (y, m, d) \<Rightarrow> ymd2ord y m d = n0 \<and> valid_date y m d"
proof -
  define n where "n = n0 - 1"
  define a where "a = n div 146097"
  define r1 where "r1 = n mod 146097"
  define b where "b = r1 div 36524"
  define r2 where "r2 = r1 mod 36524"
  define c where "c = r2 div 1461"
  define r3 where "r3 = r2 mod 1461"
  define d where "d = r3 div 365"
  define r4 where "r4 = r3 mod 365"
  define Y where "Y = 400 * a + 100 * b + 4 * c + d + 1"
  have n: "0 \<le> n" "n \<le> 3652058" using assms by (simp_all add: n_def MAXORDINAL_def)
  have e1: "n = 146097 * a + r1" and r1: "0 \<le> r1" "r1 \<le> 146096"
    unfolding a_def r1_def using pos_mod_bound [of 146097 n] by simp_all
  have e2: "r1 = 36524 * b + r2" and r2: "0 \<le> r2" "r2 \<le> 36523"
    unfolding b_def r2_def using pos_mod_bound [of 36524 r1] by simp_all
  have e3: "r2 = 1461 * c + r3" and r3: "0 \<le> r3" "r3 \<le> 1460"
    unfolding c_def r3_def using pos_mod_bound [of 1461 r2] by simp_all
  have e4: "r3 = 365 * d + r4" and r4: "0 \<le> r4" "r4 \<le> 364"
    unfolding d_def r4_def using pos_mod_bound [of 365 r3] by simp_all
  have a: "0 \<le> a" "a \<le> 24" using n r1 e1 by linarith+
  have b: "0 \<le> b" "b \<le> 4" using r1 r2 e2 by linarith+
  have c: "0 \<le> c" "c \<le> 24" using r2 r3 e3 by linarith+
  have d: "0 \<le> d" "d \<le> 4" using r3 r4 e4 by linarith+
  have o: "ord2ymd n0 =
      (if d = 4 \<or> b = 4 then (Y - 1, 12, 31)
       else (let m = (r4 + 50) div 32;
                 m' = (if r4 < days_before_month Y m then m - 1 else m)
             in (Y, m', r4 - days_before_month Y m' + 1)))"
    unfolding ord2ymd_def Let_def Y_def r4_def d_def r3_def c_def r2_def b_def r1_def a_def n_def
    by (simp add: algebra_simps)
  show ?thesis
  proof (cases "b = 4")
    case True
    with e2 r1 r2 have "r2 = 0" by linarith
    with e3 r3 c have "c = 0" "r3 = 0" by linarith+
    with e4 r4 d have "d = 0" "r4 = 0" by linarith+
    have a23: "a \<le> 23" using n e1 e2 True \<open>r2 = 0\<close> by linarith
    have Y1: "Y - 1 = 400 * a + 100 * 3 + 4 * 24 + 3 + 1"
      unfolding Y_def using True \<open>c = 0\<close> \<open>d = 0\<close> by simp
    have dby: "days_before_year (Y - 1) = 146097 * a + 36524 * 3 + 1461 * 24 + 365 * 3"
      unfolding Y1 by (rule days_before_year_cycles) simp_all
    have leap: "is_leap (Y - 1)"
      unfolding Y1 by (subst leap_cycles) simp_all
    have "ymd2ord (Y - 1) 12 31 = n0"
      using dby leap e1 e2 True \<open>r2 = 0\<close>
      by (simp add: ymd2ord_def days_before_month_table n_def)
    moreover have "valid_date (Y - 1) 12 31"
      using a a23 Y1 by (simp add: valid_date_def days_in_month_def)
    ultimately show ?thesis using o True by simp
  next
    case b3: False
    with b have b': "b \<le> 3" by simp
    show ?thesis
    proof (cases "d = 4")
      case True
      with e4 r3 r4 have "r4 = 0" by linarith
      have c23: "c \<le> 23" using e3 e4 r2 True \<open>r4 = 0\<close> by linarith
      have Y1: "Y - 1 = 400 * a + 100 * b + 4 * c + 3 + 1"
        unfolding Y_def using True by simp
      have dby: "days_before_year (Y - 1) = 146097 * a + 36524 * b + 1461 * c + 365 * 3"
        unfolding Y1 using b b' c by (intro days_before_year_cycles) simp_all
      have leap: "is_leap (Y - 1)"
        unfolding Y1 using b b' c c23 by (subst leap_cycles) simp_all
      have "ymd2ord (Y - 1) 12 31 = n0"
        using dby leap e1 e2 e3 e4 True \<open>r4 = 0\<close>
        by (simp add: ymd2ord_def days_before_month_table n_def)
      moreover have "valid_date (Y - 1) 12 31"
        using a b b' c c23 Y1 by (simp add: valid_date_def days_in_month_def)
      ultimately show ?thesis using o True by simp
    next
      case False
      with d have d': "d \<le> 3" by simp
      define m where "m = (r4 + 50) div 32"
      define m' where "m' = (if r4 < days_before_month Y m then m - 1 else m)"
      have mo: "1 \<le> m' \<and> m' \<le> 12 \<and> days_before_month Y m' \<le> r4
         \<and> r4 < days_before_month Y m' + days_in_month Y m'"
        unfolding m'_def m_def using r4 by (rule month_of_day)
      have dby: "days_before_year Y = 146097 * a + 36524 * b + 1461 * c + 365 * d"
        unfolding Y_def using b b' c d d' by (intro days_before_year_cycles) simp_all
      have Yb: "1 \<le> Y" "Y \<le> 9999"
        unfolding Y_def using a b b' c d d' n e1 e2 e3 e4 r4 by linarith+
      have "ymd2ord Y m' (r4 - days_before_month Y m' + 1) = n0"
        using dby e1 e2 e3 e4 by (simp add: ymd2ord_def n_def)
      moreover have "valid_date Y m' (r4 - days_before_month Y m' + 1)"
        using mo Yb by (simp add: valid_date_def)
      moreover have "ord2ymd n0 = (Y, m', r4 - days_before_month Y m' + 1)"
        using False b3 unfolding o m'_def m_def Let_def by simp
      ultimately show ?thesis by simp
    qed
  qed
qed

section \<open>\<open>calculate_timespan\<close> and the spans it is exact on\<close>

lemma whole_minutes_nonneg: "0 \<le> n \<Longrightarrow> whole_minutes n = n div 60000000"
proof -
  assume n: "0 \<le> n"
  have "(of_int n / 1000000) / 60 = (of_int n :: rat) / of_int 60000000" by simp
  moreover have "\<lfloor>(of_int n :: rat) / of_int 60000000\<rfloor> = n div 60000000"
    by (rule floor_divide_of_int_eq)
  moreover have "(0::rat) \<le> of_int n / of_int 60000000" using n by simp
  ultimately show ?thesis unfolding whole_minutes_def Let_def by simp
qed

lemma whole_minutes_minus: "whole_minutes (- n) = - whole_minutes n"
  unfolding whole_minutes_def Let_def
  by (auto simp: ceiling_def) 

lemma whole_minutes_neg: "n < 0 \<Longrightarrow> whole_minutes n = - ((- n) div 60000000)"
  using whole_minutes_minus [of "- n"] whole_minutes_nonneg [of "- n"] by simp

lemma int_of_float_minus: "int_of_float (- z) = - int_of_float z"
  unfolding int_of_float_def by (auto simp: ceiling_def)

lemma timespan_minus:
  "int_of_float (float_div (total_seconds (- n)) 60)
     = - int_of_float (float_div (total_seconds n) 60)"
  unfolding total_seconds_def float_div_def
  by (simp add: fl_minus int_of_float_minus)

lemma timespan_zero: "int_of_float (float_div (total_seconds 0) 60) = 0"
  by (simp add: total_seconds_def float_div_def fl_def int_of_float_def)

lemma timespan_exact:
  assumes "\<bar>n\<bar> < 17179869180000000"
  shows "int_of_float (float_div (total_seconds n) 60) = whole_minutes n"
proof -
  consider "n = 0" | "0 < n" | "n < 0" by linarith
  then show ?thesis
  proof cases
    case 1 then show ?thesis by (simp add: timespan_zero whole_minutes_nonneg)
  next
    case 2
    with assms have "n < 17179869180000000" by simp
    with 2 show ?thesis by (simp add: timespan_pos whole_minutes_nonneg)
  next
    case 3
    with assms have "0 < - n" "- n < 17179869180000000" by simp_all
    then have "int_of_float (float_div (total_seconds (- n)) 60) = (- n) div 60000000"
      by (rule timespan_pos)
    with 3 show ?thesis using timespan_minus [of n] by (simp add: whole_minutes_neg)
  qed
qed

lemma timespan_nonneg:
  assumes "0 \<le> n" shows "0 \<le> int_of_float (float_div (total_seconds n) 60)"
proof -
  have "(0::rat) \<le> of_int n / 1000000" using assms by simp
  then have "0 \<le> total_seconds n" unfolding total_seconds_def by (rule fl_nonneg)
  then have "0 \<le> total_seconds n / 60" by simp
  then have "0 \<le> float_div (total_seconds n) 60" unfolding float_div_def by (rule fl_nonneg)
  then show ?thesis by (simp add: int_of_float_def)
qed

lemma from_local_us_correct:
  assumes "0 < n div 86400000000" and "n div 86400000000 \<le> MAXORDINAL"
  shows "local_us (from_local_us n tz) = n"
    and "tzinfo (from_local_us n tz) = tz"
    and "valid_datetime (from_local_us n tz)
           = (case tz of None \<Rightarrow> True | Some off \<Rightarrow> - 86400000000 < off \<and> off < 86400000000)"
proof -
  define days where "days = n div 86400000000"
  define r where "r = n mod 86400000000"
  define secs where "secs = r div 1000000"
  define us where "us = r mod 1000000"
  define h where "h = secs div 3600"
  define rs where "rs = secs mod 3600"
  define mi where "mi = rs div 60"
  define s where "s = rs mod 60"
  obtain y m d where o: "ord2ymd days = (y, m, d)" by (cases "ord2ymd days") auto
  have "1 \<le> days" "days \<le> MAXORDINAL" using assms by (simp_all add: days_def)
  from ord2ymd_correct [OF this] o have od: "ymd2ord y m d = days" and vd: "valid_date y m d"
    by simp_all
  have s60: "secs mod 60 = s" unfolding s_def rs_def by (simp add: mod_mod_cancel)
  have f: "from_local_us n tz = \<lparr>year = y, month = m, day = d,
            hour = h, minute = mi, second = s, microsecond = us, tzinfo = tz\<rparr>"
    unfolding from_local_us_def Let_def days_def [symmetric] r_def [symmetric]
      secs_def [symmetric] o us_def [symmetric] h_def [symmetric] s60
      rs_def [symmetric] mi_def [symmetric] by simp
  have n: "n = 86400000000 * days + r" and r: "0 \<le> r" "r < 86400000000"
    unfolding days_def r_def by simp_all
  have e1: "r = 1000000 * secs + us" and us: "0 \<le> us" "us < 1000000"
    unfolding secs_def us_def by simp_all
  have e2: "secs = 3600 * h + rs" and rs: "0 \<le> rs" "rs < 3600"
    unfolding h_def rs_def by simp_all
  have e3: "rs = 60 * mi + s" and s: "0 \<le> s" "s < 60"
    unfolding mi_def s_def by simp_all
  have secs: "0 \<le> secs" "secs < 86400" using r e1 us by linarith+
  have h: "0 \<le> h" "h < 24" using secs e2 rs by linarith+
  have mi: "0 \<le> mi" "mi < 60" using rs e3 s by linarith+
  show "local_us (from_local_us n tz) = n"
    unfolding f local_us_def using od n e1 e2 e3 by (simp add: algebra_simps)
  show "tzinfo (from_local_us n tz) = tz" unfolding f by simp
  show "valid_datetime (from_local_us n tz)
           = (case tz of None \<Rightarrow> True | Some off \<Rightarrow> - 86400000000 < off \<and> off < 86400000000)"
    unfolding f valid_datetime_def using vd h mi s us by simp
qed

lemma dt_add_Inr:
  assumes "dt_add t td = Inr t'"
  shows "local_us t' = local_us t + td" and "tzinfo t' = tzinfo t"
  using assms from_local_us_correct(1,2) [of "local_us t + td" "tzinfo t"]
  by (auto simp: dt_add_def Let_def split: if_splits)

section \<open>\<open>calculate_unlock_at\<close>, case by case\<close>

lemma local_us_alt:
  "local_us t = ymd2ord (year t) (month t) (day t) * 86400000000 + hour t * 3600000000
     + minute t * 60000000 + second t * 1000000 + microsecond t"
  by (simp add: local_us_def algebra_simps)

lemma is_digit_val: "is_digit c \<Longrightarrow> digit_val c \<le> 9"
  by (auto simp: is_digit_def digit_val_def)

lemma in_range_val:
  "in_range CHR ''0'' CHR ''3'' c \<Longrightarrow> digit_val c \<le> 3"
  "in_range CHR ''0'' CHR ''1'' c \<Longrightarrow> digit_val c \<le> 1"
  "in_range CHR ''0'' CHR ''5'' c \<Longrightarrow> digit_val c \<le> 5"
  by (auto simp: in_range_def digit_val_def)

lemma match_H_range:
  assumes "(h, r) \<in> set (match_H s)" shows "0 \<le> h \<and> h < 24"
proof (cases s)
  case Nil
  with assms show ?thesis by (simp add: match_H_def)
next
  case (Cons c t)
  show ?thesis
  proof (cases t)
    case Nil
    with assms Cons show ?thesis
      by (auto simp: match_H_def split: if_splits dest!: is_digit_val)
  next
    case (Cons d u)
    with assms \<open>s = c # t\<close> show ?thesis
      by (auto simp: match_H_def split: if_splits dest!: is_digit_val in_range_val)
  qed
qed

lemma match_M_range:
  assumes "(m, r) \<in> set (match_M s)" shows "0 \<le> m \<and> m < 60"
proof (cases s)
  case Nil
  with assms show ?thesis by (simp add: match_M_def)
next
  case (Cons c t)
  show ?thesis
  proof (cases t)
    case Nil
    with assms Cons show ?thesis
      by (auto simp: match_M_def split: if_splits dest!: is_digit_val)
  next
    case (Cons d u)
    with assms \<open>s = c # t\<close> show ?thesis
      by (auto simp: match_M_def split: if_splits dest!: is_digit_val in_range_val)
  qed
qed

lemma match_HM_range: "(h, m, r) \<in> set (match_HM s) \<Longrightarrow> 0 \<le> h \<and> h < 24 \<and> 0 \<le> m \<and> m < 60"
  by (auto simp: match_HM_def dest: match_H_range match_M_range)

lemma strptime_HM_Inr:
  assumes "strptime_HM s = Inr p"
  shows "\<exists>h m. p = \<lparr>year = 1900, month = 1, day = 1, hour = h, minute = m, second = 0,
                     microsecond = 0, tzinfo = None\<rparr>
               \<and> 0 \<le> h \<and> h < 24 \<and> 0 \<le> m \<and> m < 60"
proof (cases "match_HM s")
  case Nil
  with assms show ?thesis by (simp add: strptime_HM_def)
next
  case (Cons x xs)
  obtain h m r where x: "x = (h, m, r)" by (cases x) auto
  with Cons have "(h, m, r) \<in> set (match_HM s)" by simp
  then have "0 \<le> h \<and> h < 24 \<and> 0 \<le> m \<and> m < 60" by (rule match_HM_range)
  with assms Cons x show ?thesis by (auto simp: strptime_HM_def split: if_splits)
qed

lemma calculate_timespan_utc:
  assumes "tzinfo a = utc" and "tzinfo b = utc"
  shows "calculate_timespan a b
           = Inr (int_of_float (float_div (total_seconds (local_us b - local_us a)) 60))"
  using assms by (simp add: calculate_timespan_def dt_sub_def utc_def)

lemma time_of_day_le:
  assumes "valid_datetime a" and "valid_datetime b" and "\<not> time_lt a b"
    and "year a = year b" "month a = month b" "day a = day b"
  shows "local_us b \<le> local_us a" and "local_us a - local_us b < 86400000000"
proof -
  have a: "0 \<le> hour a" "hour a < 24" "0 \<le> minute a" "minute a < 60" "0 \<le> second a"
    "second a < 60" "0 \<le> microsecond a" "microsecond a < 1000000"
    using assms(1) by (simp_all add: valid_datetime_def)
  have b: "0 \<le> hour b" "hour b < 24" "0 \<le> minute b" "minute b < 60" "0 \<le> second b"
    "second b < 60" "0 \<le> microsecond b" "microsecond b < 1000000"
    using assms(2) by (simp_all add: valid_datetime_def)
  have c: "hour b < hour a \<or> hour b = hour a \<and> (minute b < minute a \<or> minute b = minute a \<and>
      (second b < second a \<or> second b = second a \<and> microsecond b \<le> microsecond a))"
    using assms(3) unfolding time_lt_def by linarith
  have e: "local_us a - local_us b = (hour a - hour b) * 3600000000
      + (minute a - minute b) * 60000000 + (second a - second b) * 1000000
      + (microsecond a - microsecond b)"
    unfolding local_us_alt using assms(4-6) by (simp add: algebra_simps)
  have "0 \<le> local_us a - local_us b" unfolding e using a b c
    by (elim disjE conjE) (simp_all add: algebra_simps)
  then show "local_us b \<le> local_us a" by simp
  show "local_us a - local_us b < 86400000000" unfolding e using a b
    by (simp add: algebra_simps)
qed

lemma next_day_span:
  assumes "valid_datetime a" and "valid_datetime b"
    and "year a = year b" "month a = month b" "day a = day b + 1"
  shows "0 < local_us a - local_us b" and "local_us a - local_us b < 172800000000"
proof -
  have a: "0 \<le> hour a" "hour a < 24" "0 \<le> minute a" "minute a < 60" "0 \<le> second a"
    "second a < 60" "0 \<le> microsecond a" "microsecond a < 1000000"
    using assms(1) by (simp_all add: valid_datetime_def)
  have b: "0 \<le> hour b" "hour b < 24" "0 \<le> minute b" "minute b < 60" "0 \<le> second b"
    "second b < 60" "0 \<le> microsecond b" "microsecond b < 1000000"
    using assms(2) by (simp_all add: valid_datetime_def)
  have e: "local_us a - local_us b = 86400000000 + (hour a - hour b) * 3600000000
      + (minute a - minute b) * 60000000 + (second a - second b) * 1000000
      + (microsecond a - microsecond b)"
    unfolding local_us_alt using assms(3-5) by (simp add: algebra_simps ymd2ord_def)
  show "0 < local_us a - local_us b" unfolding e using a b by (simp add: algebra_simps)
  show "local_us a - local_us b < 172800000000" unfolding e using a b
    by (simp add: algebra_simps)
qed

lemma calculate_unlock_at_eq:
  assumes v: "valid_datetime now_time" and tz: "tzinfo now_time = utc"
    and p: "strptime_HM (py_str (dict_get (self_protection_config self) ''unlock_at'' PyNone))
              = Inr parsed"
  defines "today \<equiv> parsed\<lparr>day := day now_time, year := year now_time,
                              month := month now_time, tzinfo := utc\<rparr>"
  shows "calculate_unlock_at now_time self =
     (if time_lt parsed now_time then
        (if day now_time < days_in_month (year now_time) (month now_time) then
           Inr (self\<lparr>unlock_at := Some (today\<lparr>day := day now_time + 1\<rparr>)\<rparr>,
                whole_minutes (local_us (today\<lparr>day := day now_time + 1\<rparr>) - local_us now_time))
         else Inl ValueError)
      else Inr (self\<lparr>unlock_at := Some today\<rparr>,
                whole_minutes (local_us today - local_us now_time)))"
    and "time_lt parsed now_time \<Longrightarrow>
           day now_time < days_in_month (year now_time) (month now_time) \<Longrightarrow>
           0 < local_us (today\<lparr>day := day now_time + 1\<rparr>) - local_us now_time
           \<and> valid_datetime (today\<lparr>day := day now_time + 1\<rparr>)"
    and "\<not> time_lt parsed now_time \<Longrightarrow>
           0 \<le> local_us today - local_us now_time \<and> valid_datetime today"
proof -
  obtain h m where parsed: "parsed = \<lparr>year = 1900, month = 1, day = 1, hour = h, minute = m,
      second = 0, microsecond = 0, tzinfo = None\<rparr>"
    and hm: "0 \<le> h" "h < 24" "0 \<le> m" "m < 60"
    using strptime_HM_Inr [OF p] by blast
  define u0 where "u0 = parsed\<lparr>day := day now_time, year := year now_time,
                              month := month now_time\<rparr>"
  have vd: "valid_date (year now_time) (month now_time) (day now_time)"
    using v by (simp add: valid_datetime_def)
  have v0: "valid_datetime u0"
    unfolding u0_def parsed using vd hm by (simp add: valid_datetime_def)
  have n0: "datetime_new u0 = Inr u0" using v0 by (simp add: datetime_new_def)
  have lt: "time_lt u0 now_time = time_lt parsed now_time"
    unfolding u0_def by (simp add: time_lt_def)
  have t0: "today = u0\<lparr>tzinfo := utc\<rparr>" unfolding today_def u0_def by simp
  have vt: "valid_datetime today"
    unfolding t0 using v0 by (simp add: valid_datetime_def utc_def)
  have nt: "datetime_new (u0\<lparr>tzinfo := utc\<rparr>) = Inr today"
    using vt unfolding t0 by (simp add: datetime_new_def)
  have same: "year today = year now_time" "month today = month now_time"
    "day today = day now_time" "tzinfo today = utc"
    unfolding today_def by simp_all
  show c: "\<not> time_lt parsed now_time \<Longrightarrow>
           0 \<le> local_us today - local_us now_time \<and> valid_datetime today"
  proof -
    assume "\<not> time_lt parsed now_time"
    then have "\<not> time_lt today now_time" unfolding today_def by (simp add: time_lt_def)
    from time_of_day_le(1) [OF vt v this same(1-3)] vt show ?thesis by simp
  qed
  define u1 where "u1 = today\<lparr>day := day now_time + 1\<rparr>"
  have v1: "valid_datetime u1 = (day now_time < days_in_month (year now_time) (month now_time))"
    unfolding u1_def using vt vd same
    by (auto simp: valid_datetime_def valid_date_def)
  have v1': "valid_datetime (u0\<lparr>day := day now_time + 1\<rparr>)
      = (day now_time < days_in_month (year now_time) (month now_time))"
    using v0 vd unfolding u0_def
    by (auto simp: valid_datetime_def valid_date_def)
  have u1e: "u0\<lparr>day := day now_time + 1, tzinfo := utc\<rparr> = u1"
    unfolding u1_def t0 by simp
  show b: "time_lt parsed now_time \<Longrightarrow>
           day now_time < days_in_month (year now_time) (month now_time) \<Longrightarrow>
           0 < local_us (today\<lparr>day := day now_time + 1\<rparr>) - local_us now_time
           \<and> valid_datetime (today\<lparr>day := day now_time + 1\<rparr>)"
  proof -
    assume "day now_time < days_in_month (year now_time) (month now_time)"
    then have "valid_datetime u1" using v1 by simp
    moreover from next_day_span(1) [OF this v] same
    have "0 < local_us u1 - local_us now_time" by (simp add: u1_def)
    ultimately show ?thesis unfolding u1_def by simp
  qed
  show "calculate_unlock_at now_time self =
     (if time_lt parsed now_time then
        (if day now_time < days_in_month (year now_time) (month now_time) then
           Inr (self\<lparr>unlock_at := Some (today\<lparr>day := day now_time + 1\<rparr>)\<rparr>,
                whole_minutes (local_us (today\<lparr>day := day now_time + 1\<rparr>) - local_us now_time))
         else Inl ValueError)
      else Inr (self\<lparr>unlock_at := Some today\<rparr>,
                whole_minutes (local_us today - local_us now_time)))"
  proof (cases "time_lt parsed now_time")
    case False
    from time_of_day_le [OF vt v _ same(1-3)] False
    have "0 \<le> local_us today - local_us now_time" "local_us today - local_us now_time < 86400000000"
      unfolding today_def by (simp_all add: time_lt_def)
    then have "\<bar>local_us today - local_us now_time\<bar> < 17179869180000000" by simp
    then have "calculate_timespan now_time today
        = Inr (whole_minutes (local_us today - local_us now_time))"
      using calculate_timespan_utc [OF tz same(4)] by (simp add: timespan_exact)
    with False show ?thesis
      unfolding calculate_unlock_at_def p
      by (simp add: u0_def [symmetric] n0 lt nt Let_def)
  next
    case True
    show ?thesis
    proof (cases "day now_time < days_in_month (year now_time) (month now_time)")
      case False
      with True show ?thesis
        unfolding calculate_unlock_at_def p
        by (simp add: u0_def [symmetric] n0 lt v1' datetime_new_def [of "u0\<lparr>day := day now_time + 1\<rparr>"])
    next
      case d: True
      then have vu1: "valid_datetime u1" using v1 by simp
      have s: "year u1 = year now_time" "month u1 = month now_time" "day u1 = day now_time + 1"
        "tzinfo u1 = utc"
        unfolding u1_def using same by simp_all
      from next_day_span [OF vu1 v s(1-3)]
      have "\<bar>local_us u1 - local_us now_time\<bar> < 17179869180000000" by simp
      then have ts: "calculate_timespan now_time u1
          = Inr (whole_minutes (local_us u1 - local_us now_time))"
        using calculate_timespan_utc [OF tz s(4)] by (simp add: timespan_exact)
      have n1: "datetime_new (u0\<lparr>day := day now_time + 1\<rparr>) = Inr (u0\<lparr>day := day now_time + 1\<rparr>)"
        using d v1' by (simp add: datetime_new_def)
      have n2: "datetime_new (u0\<lparr>day := day now_time + 1, tzinfo := utc\<rparr>) = Inr u1"
        unfolding u1e using vu1 by (simp add: datetime_new_def)
      from True d show ?thesis
        unfolding calculate_unlock_at_def p
        by (simp add: u0_def [symmetric] n0 lt n1 n2 ts Let_def u1_def [symmetric])
    qed
  qed
qed

section \<open>\<open>calculate_timespan\<close> and \<open>calculate_unlock_at\<close>: the claims\<close>

text \<open>
  Claim C5, as the code has it. For two timestamps that are both naive or both aware
  (\<open>end_time - start_time\<close> is then a timedelta of \<open>td\<close> microseconds) and less than
  286331153 minutes (about 544 years) apart, \<open>calculate_timespan\<close> returns the whole
  minutes of the span: its seconds divided by 60 and truncated toward zero, so \<open>td div
  60000000\<close> for a span that is not negative and \<open>- ((- td) div 60000000)\<close> for a negative
  one. One naive and one aware timestamp raise \<open>TypeError\<close>. In particular
  \<open>calculate_timespan(t, t)\<close> is 0 for every \<open>t\<close>, and \<open>calculate_timespan(t, t + 90 minutes)\<close>
  is 90 whenever \<open>t + timedelta(minutes=90)\<close> exists.
\<close>

theorem calculate_timespan_whole_minutes:
  "(dt_sub end_time start_time = Inr td \<and> \<bar>td\<bar> < 17179869180000000 \<longrightarrow>
       calculate_timespan start_time end_time = Inr (whole_minutes td))
   \<and> (0 \<le> td \<longrightarrow> whole_minutes td = td div 60000000)
   \<and> (td < 0 \<longrightarrow> whole_minutes td = - ((- td) div 60000000))
   \<and> ((tzinfo start_time = None) \<noteq> (tzinfo end_time = None) \<longrightarrow>
       calculate_timespan start_time end_time = Inl TypeError)
   \<and> calculate_timespan t t = Inr 0
   \<and> timedelta_minutes 90 = Inr 5400000000
   \<and> (dt_add t 5400000000 = Inr t' \<longrightarrow> calculate_timespan t t' = Inr 90)"
proof (intro conjI impI)
  assume "dt_sub end_time start_time = Inr td \<and> \<bar>td\<bar> < 17179869180000000"
  then show "calculate_timespan start_time end_time = Inr (whole_minutes td)"
    by (simp add: calculate_timespan_def timespan_exact)
next
  assume "0 \<le> td" then show "whole_minutes td = td div 60000000"
    by (rule whole_minutes_nonneg)
next
  assume "td < 0" then show "whole_minutes td = - ((- td) div 60000000)"
    by (rule whole_minutes_neg)
next
  assume "(tzinfo start_time = None) \<noteq> (tzinfo end_time = None)"
  then show "calculate_timespan start_time end_time = Inl TypeError"
    by (auto simp: calculate_timespan_def dt_sub_def split: option.splits)
next
  have "dt_sub t t = Inr 0" by (simp add: dt_sub_def split: option.splits)
  then show "calculate_timespan t t = Inr 0"
    by (simp add: calculate_timespan_def timespan_zero)
next
  show "timedelta_minutes 90 = Inr 5400000000" by (simp add: timedelta_minutes_def)
next
  assume a: "dt_add t 5400000000 = Inr t'"
  from dt_add_Inr [OF a] have "dt_sub t' t = Inr 5400000000"
    by (simp add: dt_sub_def split: option.splits)
  moreover have "whole_minutes 5400000000 = 90" by (simp add: whole_minutes_nonneg)
  ultimately show "calculate_timespan t t' = Inr 90"
    by (simp add: calculate_timespan_def timespan_exact)
qed

theorem calculate_timespan_whole_minutes_witness:
  "calculate_timespan example_now (example_now\<lparr>hour := 8, minute := 29, second := 30\<rparr>)
     = Inr (- 90)
   \<and> calculate_timespan example_now (example_now\<lparr>hour := 11, minute := 30\<rparr>) = Inr 90"
proof -
  have d: "dt_sub (example_now\<lparr>hour := 8, minute := 29, second := 30\<rparr>) example_now
             = Inr (- 5430000000) \<and> \<bar>- 5430000000 :: int\<bar> < 17179869180000000"
    by code_simp
  have a: "dt_add example_now 5400000000 = Inr (example_now\<lparr>hour := 11, minute := 30\<rparr>)"
    by code_simp
  note t = calculate_timespan_whole_minutes [of "example_now\<lparr>hour := 8, minute := 29, second := 30\<rparr>"
      example_now "- 5430000000" example_now "example_now\<lparr>hour := 11, minute := 30\<rparr>"]
  from t d have "calculate_timespan example_now (example_now\<lparr>hour := 8, minute := 29, second := 30\<rparr>)
     = Inr (whole_minutes (- 5430000000))" by blast
  moreover from t have "whole_minutes (- 5430000000) = - ((- (- 5430000000)) div 60000000)"
    by simp
  moreover from t a have "calculate_timespan example_now (example_now\<lparr>hour := 11, minute := 30\<rparr>)
     = Inr 90" by blast
  ultimately show ?thesis by simp
qed

text \<open>
  The claim as stated fails for very long spans: between 0001-01-01 00:00:00.000001 and
  9999-01-01 00:00:00 lie 5258439359 whole minutes and 59.999999 seconds; the seconds
  of the span are rounded to a double, which is the next whole minute, and
  \<open>calculate_timespan\<close> returns 5258439360. It also fails for a naive and an aware
  timestamp, which raise \<open>TypeError\<close>.
\<close>

theorem calculate_timespan_rounds_up:
  "calculate_timespan example_first example_last_year = Inr 5258439360
   \<and> dt_sub example_last_year example_first = Inr 315506361599999999
   \<and> whole_minutes 315506361599999999 = 5258439359
   \<and> (315506361599999999 :: int) div 60000000 = 5258439359
   \<and> calculate_timespan example_first example_now = Inl TypeError"
  by code_simp

text \<open>
  Claim C9. With \<open>now_time\<close> a valid datetime in UTC (what \<open>datetime.now(timezone.utc)\<close>
  returns): whenever \<open>calculate_unlock_at\<close> returns, the minutes it returns are not
  negative, and the \<open>unlock_at\<close> it has stored is not earlier than \<open>now_time\<close>
  (\<open>now_time > unlock_at\<close> is false). The witness is the case of 0 minutes, at exactly the
  configured time.
\<close>

theorem calculate_unlock_at_not_in_past:
  assumes "valid_datetime now_time" and "tzinfo now_time = utc"
    and "calculate_unlock_at now_time self = Inr (self', result)"
  shows "0 \<le> result
         \<and> (\<exists>u. unlock_at self' = Some u \<and> local_us now_time \<le> local_us u
                \<and> dt_gt now_time u = Inr False)"
proof -
  obtain parsed where p: "strptime_HM (py_str (dict_get (self_protection_config self)
      ''unlock_at'' PyNone)) = Inr parsed"
    using assms(3) by (cases "strptime_HM (py_str (dict_get (self_protection_config self)
      ''unlock_at'' PyNone))") (simp_all add: calculate_unlock_at_def)
  define today where "today = parsed\<lparr>day := day now_time, year := year now_time,
                              month := month now_time, tzinfo := utc\<rparr>"
  note e = calculate_unlock_at_eq [OF assms(1,2) p, folded today_def]
  have g: "dt_gt now_time u = Inr False"
    if "local_us now_time \<le> local_us u" "tzinfo u = utc" for u
    using that assms(2) by (simp add: dt_gt_def dt_sub_def utc_def)
  show ?thesis
  proof (cases "time_lt parsed now_time")
    case False
    with e(1) assms(3) have r: "self' = self\<lparr>unlock_at := Some today\<rparr>"
      "result = whole_minutes (local_us today - local_us now_time)" by simp_all
    from e(3) [OF False] have s: "0 \<le> local_us today - local_us now_time" by simp
    then have "0 \<le> result" unfolding r by (simp add: whole_minutes_nonneg)
    moreover have "dt_gt now_time today = Inr False"
      using s by (intro g) (simp_all add: today_def)
    ultimately show ?thesis using r s by simp
  next
    case True
    with e(1) assms(3) have d: "day now_time < days_in_month (year now_time) (month now_time)"
      by (auto split: if_splits)
    with True e(1) assms(3) have r: "self' = self\<lparr>unlock_at := Some (today\<lparr>day := day now_time + 1\<rparr>)\<rparr>"
      "result = whole_minutes (local_us (today\<lparr>day := day now_time + 1\<rparr>) - local_us now_time)"
      by simp_all
    from e(2) [OF True d]
    have s: "0 \<le> local_us (today\<lparr>day := day now_time + 1\<rparr>) - local_us now_time" by simp
    then have "0 \<le> result" unfolding r by (simp add: whole_minutes_nonneg)
    moreover have "dt_gt now_time (today\<lparr>day := day now_time + 1\<rparr>) = Inr False"
      using s by (intro g) (simp_all add: today_def)
    ultimately show ?thesis using r s by simp
  qed
qed

theorem calculate_unlock_at_not_in_past_witness:
  "calculate_unlock_at example_nine example_instance
     = Inr (example_instance\<lparr>unlock_at := Some example_nine\<rparr>, 0)
   \<and> dt_gt example_nine example_nine = Inr False"
proof -
  have v: "valid_datetime example_nine" and z: "tzinfo example_nine = utc" by code_simp+
  have c: "calculate_unlock_at example_nine example_instance
     = Inr (example_instance\<lparr>unlock_at := Some example_nine\<rparr>, 0)" by code_simp
  from calculate_unlock_at_not_in_past [OF v z c]
  have "dt_gt example_nine example_nine = Inr False" by simp
  with c show ?thesis by simp
qed

text \<open>
  Claim C2, as far as the code goes. With \<open>now_time\<close> a valid datetime in UTC and an
  \<open>unlock_at\<close> value that parses as \<open>HH:MM\<close>: \<open>calculate_unlock_at\<close> puts that time on today's
  date; if it is earlier than the current time of day, the candidate is moved to the next
  day of the month, which is 86400 seconds later, and the method raises \<open>ValueError\<close> when
  today is the last day of its month; the result is stored in UTC as \<open>unlock_at\<close>, and the
  whole minutes from \<open>now_time\<close> to it are returned, which
  \<open>set_unlock_at_as_stop_duration\<close> makes the stop duration. At 10:00 UTC with
  \<open>unlock_at = "09:00"\<close> on 2024-01-15 the result is 09:00 UTC of 2024-01-16 and 1380
  minutes; on 2024-12-31 it is \<open>ValueError\<close>.
\<close>

theorem calculate_unlock_at_rollover:
  assumes "valid_datetime now_time" and "tzinfo now_time = utc"
    and "strptime_HM (py_str (dict_get (self_protection_config self) ''unlock_at'' PyNone))
           = Inr parsed"
  shows "(let today = parsed\<lparr>day := day now_time, year := year now_time,
                               month := month now_time, tzinfo := utc\<rparr>;
              tomorrow = today\<lparr>day := day now_time + 1\<rparr>
          in calculate_unlock_at now_time self =
               (if time_lt parsed now_time then
                  (if day now_time < days_in_month (year now_time) (month now_time) then
                     Inr (self\<lparr>unlock_at := Some tomorrow\<rparr>,
                          whole_minutes (local_us tomorrow - local_us now_time))
                   else Inl ValueError)
                else Inr (self\<lparr>unlock_at := Some today\<rparr>,
                          whole_minutes (local_us today - local_us now_time)))
             \<and> local_us tomorrow = local_us today + 86400000000)
         \<and> (has_key (self_protection_config self) ''unlock_at'' \<longrightarrow>
               set_unlock_at_as_stop_duration now_time self =
                 (case calculate_unlock_at now_time self of
                    Inl e \<Rightarrow> Inl e
                  | Inr (s, r) \<Rightarrow> Inr (s\<lparr>stop_duration := r\<rparr>, [])))"
proof -
  have "local_us (t\<lparr>day := day t + 1\<rparr>) = local_us t + 86400000000" for t :: datetime
    by (simp add: local_us_alt ymd2ord_def)
  from this [of "parsed\<lparr>day := day now_time, year := year now_time,
                               month := month now_time, tzinfo := utc\<rparr>"]
  show ?thesis
    using calculate_unlock_at_eq(1) [OF assms]
    by (simp add: Let_def set_unlock_at_as_stop_duration_def)
qed

theorem calculate_unlock_at_rollover_witness:
  "calculate_unlock_at example_now example_instance
     = Inr (example_instance\<lparr>unlock_at := Some (example_now\<lparr>day := 16, hour := 9\<rparr>)\<rparr>, 1380)
   \<and> calculate_unlock_at example_year_end example_instance = Inl ValueError"
proof -
  have p: "strptime_HM (py_str (dict_get (self_protection_config example_instance)
       ''unlock_at'' PyNone))
     = Inr \<lparr>year = 1900, month = 1, day = 1, hour = 9, minute = 0, second = 0,
            microsecond = 0, tzinfo = None\<rparr>"
    by code_simp
  have v1: "valid_datetime example_now" and z1: "tzinfo example_now = utc" by code_simp+
  have v2: "valid_datetime example_year_end" and z2: "tzinfo example_year_end = utc"
    by code_simp+
  have l1: "time_lt \<lparr>year = 1900, month = 1, day = 1, hour = 9, minute = 0, second = 0,
            microsecond = 0, tzinfo = None\<rparr> example_now
      \<and> day example_now < days_in_month (year example_now) (month example_now)"
    by code_simp
  have l2: "time_lt \<lparr>year = 1900, month = 1, day = 1, hour = 9, minute = 0, second = 0,
            microsecond = 0, tzinfo = None\<rparr> example_year_end
      \<and> \<not> day example_year_end < days_in_month (year example_year_end) (month example_year_end)"
    by code_simp
  have w: "whole_minutes (local_us (example_now\<lparr>day := 16, hour := 9\<rparr>) - local_us example_now)
      = 1380"
    by code_simp
  have u: "\<lparr>year = year example_now, month = month example_now, day = day example_now + 1,
            hour = 9, minute = 0, second = 0, microsecond = 0, tzinfo = utc\<rparr>
      = example_now\<lparr>day := 16, hour := 9\<rparr>"
    by (simp add: example_now_def)
  have a: "calculate_unlock_at example_now example_instance
     = Inr (example_instance\<lparr>unlock_at := Some (example_now\<lparr>day := 16, hour := 9\<rparr>)\<rparr>, 1380)"
    using calculate_unlock_at_rollover [OF v1 z1 p] l1 w
    by (simp add: Let_def u)
  have b: "calculate_unlock_at example_year_end example_instance = Inl ValueError"
    using calculate_unlock_at_rollover [OF v2 z2 p] l2
    by (simp add: Let_def)
  from a b show ?thesis by (rule conjI)
qed

section \<open>\<open>calculate_lock_end\<close> with a closed trade\<close>

lemma day_of_year_range:
  assumes "valid_date y m d"
  shows "1 \<le> days_before_month y m + d"
    and "days_before_month y m + d \<le> (if is_leap y then 366 else 365)"
proof -
  have m: "1 \<le> m" "m \<le> 12" and d: "1 \<le> d" "d \<le> days_in_month y m"
    using assms by (simp_all add: valid_date_def)
  from m consider "m = 1" | "m = 2" | "m = 3" | "m = 4" | "m = 5" | "m = 6" | "m = 7" | "m = 8"
    | "m = 9" | "m = 10" | "m = 11" | "m = 12"
    by atomize_elim presburger
  then have "1 \<le> days_before_month y m + d
     \<and> days_before_month y m + d \<le> (if is_leap y then 366 else 365)"
    using d by cases (auto simp: days_before_month_table days_in_month_def split: if_splits)
  then show "1 \<le> days_before_month y m + d"
    and "days_before_month y m + d \<le> (if is_leap y then 366 else 365)" by simp_all
qed

lemma days_before_year_range:
  assumes "1 \<le> y" and "y \<le> 9999"
  shows "0 \<le> days_before_year y"
    and "days_before_year y + (if is_leap y then 366 else 365) \<le> MAXORDINAL"
proof -
  define q4 where "q4 = (y - 1) div 4"
  define q100 where "q100 = (y - 1) div 100"
  define q400 where "q400 = (y - 1) div 400"
  have e: "days_before_year y = 365 * y - 365 + q4 - q100 + q400"
    by (simp add: days_before_year_def q4_def q100_def q400_def algebra_simps)
  have a4: "4 * q4 \<le> y - 1" "y - 1 < 4 * q4 + 4"
    unfolding q4_def using pos_mod_bound [of 4 "y - 1"] pos_mod_sign [of 4 "y - 1"]
      div_mult_mod_eq [of "y - 1" 4] by linarith+
  have a100: "100 * q100 \<le> y - 1" "y - 1 < 100 * q100 + 100"
    unfolding q100_def using pos_mod_bound [of 100 "y - 1"] pos_mod_sign [of 100 "y - 1"]
      div_mult_mod_eq [of "y - 1" 100] by linarith+
  have a400: "400 * q400 \<le> y - 1" "y - 1 < 400 * q400 + 400"
    unfolding q400_def using pos_mod_bound [of 400 "y - 1"] pos_mod_sign [of 400 "y - 1"]
      div_mult_mod_eq [of "y - 1" 400] by linarith+
  have "0 \<le> q100" using assms a100 by linarith
  moreover have "0 \<le> q400" using assms a400 by linarith
  moreover from \<open>0 \<le> q100\<close> have "q100 \<le> q4" using a4 a100 by linarith
  ultimately show "0 \<le> days_before_year y"
    unfolding e using assms by linarith
  show "days_before_year y + (if is_leap y then 366 else 365) \<le> MAXORDINAL"
  proof (cases "y = 9999")
    case True
    then show ?thesis by (simp add: days_before_year_def is_leap_def MAXORDINAL_def)
  next
    case False
    with assms have "y \<le> 9998" by simp
    then have "days_before_year y + 366 \<le> 3652059"
      unfolding e using assms a4 a100 a400 by linarith
    then show ?thesis by (simp add: MAXORDINAL_def)
  qed
qed

lemma ymd2ord_range:
  assumes "valid_date y m d"
  shows "1 \<le> ymd2ord y m d" and "ymd2ord y m d \<le> MAXORDINAL"
proof -
  have y: "1 \<le> y" "y \<le> 9999" using assms by (simp_all add: valid_date_def)
  show "1 \<le> ymd2ord y m d"
    unfolding ymd2ord_def
    using days_before_year_range(1) [OF y] day_of_year_range(1) [OF assms] by linarith
  show "ymd2ord y m d \<le> MAXORDINAL"
    unfolding ymd2ord_def
    using days_before_year_range(2) [OF y] day_of_year_range(2) [OF assms] by linarith
qed

lemma local_us_range:
  assumes "valid_datetime t"
  shows "86400000000 \<le> local_us t" and "local_us t < 315537984000000000"
proof -
  have a: "0 \<le> hour t" "hour t < 24" "0 \<le> minute t" "minute t < 60" "0 \<le> second t"
    "second t < 60" "0 \<le> microsecond t" "microsecond t < 1000000"
    and v: "valid_date (year t) (month t) (day t)"
    using assms by (simp_all add: valid_datetime_def)
  from ymd2ord_range [OF v]
  have o: "1 \<le> ymd2ord (year t) (month t) (day t)" "ymd2ord (year t) (month t) (day t) \<le> 3652059"
    by (simp_all add: MAXORDINAL_def)
  show "86400000000 \<le> local_us t" unfolding local_us_alt using a o by linarith
  show "local_us t < 315537984000000000" unfolding local_us_alt using a o by linarith
qed

lemma dt_gt_same:
  assumes "(tzinfo a = None) = (tzinfo b = None)"
  shows "dt_gt a b = Inr (utc_us b < utc_us a)"
  using assms by (auto simp: dt_gt_def dt_sub_def utc_us_def split: option.splits)

lemma max_loop_homogeneous:
  assumes "\<forall>t \<in> set (m # xs). (tzinfo t = None) = N"
  shows "\<exists>mx \<in> set (m # xs). max_loop m xs = Inr mx \<and> (\<forall>t \<in> set (m # xs). utc_us t \<le> utc_us mx)"
  using assms
proof (induction xs arbitrary: m)
  case Nil
  then show ?case by simp
next
  case (Cons x xs)
  then have g: "dt_gt x m = Inr (utc_us m < utc_us x)"
    by (intro dt_gt_same) simp
  define m' where "m' = (if utc_us m < utc_us x then x else m)"
  have "\<forall>t \<in> set (m' # xs). (tzinfo t = None) = N"
    using Cons.prems by (simp add: m'_def)
  from Cons.IH [OF this] obtain mx where mx: "mx \<in> set (m' # xs)" "max_loop m' xs = Inr mx"
    "\<forall>t \<in> set (m' # xs). utc_us t \<le> utc_us mx" by blast
  have "max_loop m (x # xs) = Inr mx" using g mx(2) by (simp add: m'_def)
  moreover have "mx \<in> set (m # x # xs)" using mx(1) by (auto simp: m'_def split: if_splits)
  moreover have "\<forall>t \<in> set (m # x # xs). utc_us t \<le> utc_us mx"
    using mx(3) by (auto simp: m'_def split: if_splits)
  ultimately show ?case by blast
qed

lemma py_max_homogeneous:
  assumes "ds \<noteq> []" and "(\<forall>t \<in> set ds. tzinfo t = None) \<or> (\<forall>t \<in> set ds. tzinfo t \<noteq> None)"
  shows "\<exists>mx \<in> set ds. py_max ds = Inr mx \<and> (\<forall>t \<in> set ds. utc_us t \<le> utc_us mx)"
proof -
  obtain m xs where ds: "ds = m # xs" using assms(1) by (cases ds) auto
  from assms(2) obtain N where "\<forall>t \<in> set (m # xs). (tzinfo t = None) = N"
    unfolding ds by (elim disjE) (rule that [of True], simp, rule that [of False], simp)
  from max_loop_homogeneous [OF this] show ?thesis by (simp add: ds py_max_def)
qed

lemma timedelta_minutes_cases:
  "timedelta_minutes m = Inr (m * 60000000) \<or> timedelta_minutes m = Inl OverflowError"
  by (simp add: timedelta_minutes_def Let_def)

lemma timedelta_minutes_in_range:
  assumes "\<bar>m * 60000000\<bar> < 315537984000000000"
  shows "timedelta_minutes m = Inr (m * 60000000)"
proof -
  define td where "td = m * 60000000"
  define q where "q = td div 86400000000"
  have "86400000000 * q \<le> td" "td < 86400000000 * q + 86400000000"
    unfolding q_def using pos_mod_bound [of 86400000000 td] pos_mod_sign [of 86400000000 td]
      div_mult_mod_eq [of td 86400000000] by linarith+
  with assms have "- 999999999 \<le> q" "q \<le> 999999999" unfolding td_def [symmetric] by linarith+
  then show ?thesis
    unfolding timedelta_minutes_def Let_def td_def [symmetric] q_def [symmetric] by simp
qed

text \<open>
  Claim C4, as the code has it. The trades have at least one close date, the close
  dates are valid datetimes, and they are all naive or all aware. Then one of them,
  \<open>mx\<close>, is the latest (no close date is a later instant), and \<open>calculate_lock_end\<close> returns
  the datetime \<open>stop_minutes\<close> minutes after \<open>mx\<close> on its wall clock, in the zone of \<open>mx\<close>, or in
  UTC when \<open>mx\<close> is naive, provided that day is within the calendar (ordinal days 1 to
  \<open>MAXORDINAL\<close>, the years 1 to 9999); otherwise it raises \<open>OverflowError\<close>.
\<close>

theorem calculate_lock_end_max:
  assumes "List.map_filter close_date trades \<noteq> []"
    and "\<forall>t \<in> set (List.map_filter close_date trades). valid_datetime t"
    and "(\<forall>t \<in> set (List.map_filter close_date trades). tzinfo t = None)
         \<or> (\<forall>t \<in> set (List.map_filter close_date trades). tzinfo t \<noteq> None)"
  shows "\<exists>mx \<in> set (List.map_filter close_date trades).
           (\<forall>t \<in> set (List.map_filter close_date trades). utc_us t \<le> utc_us mx)
           \<and> (if 0 < (local_us mx + stop_minutes * 60000000) div 86400000000
                  \<and> (local_us mx + stop_minutes * 60000000) div 86400000000 \<le> MAXORDINAL
               then \<exists>until. calculate_lock_end trades stop_minutes = Inr until
                      \<and> local_us until = local_us mx + stop_minutes * 60000000
                      \<and> tzinfo until = (if tzinfo mx = None then utc else tzinfo mx)
                      \<and> valid_datetime until
               else calculate_lock_end trades stop_minutes = Inl OverflowError)"
proof -
  define ds where "ds = List.map_filter close_date trades"
  from py_max_homogeneous [OF assms(1,3)] obtain mx where mx: "mx \<in> set ds"
    "py_max ds = Inr mx" "\<forall>t \<in> set ds. utc_us t \<le> utc_us mx"
    unfolding ds_def by blast
  have v: "valid_datetime mx" using assms(2) mx(1) by (simp add: ds_def)
  define mx' where "mx' = (if tzinfo mx = None then mx\<lparr>tzinfo := utc\<rparr> else mx)"
  have l: "local_us mx' = local_us mx" by (simp add: mx'_def local_us_def)
  have z: "tzinfo mx' = (if tzinfo mx = None then utc else tzinfo mx)" by (simp add: mx'_def)
  have zv: "(case tzinfo mx' of None \<Rightarrow> True
             | Some off \<Rightarrow> - 86400000000 < off \<and> off < 86400000000)"
    using v by (auto simp: z utc_def valid_datetime_def split: option.splits)
  define n where "n = local_us mx + stop_minutes * 60000000"
  have c: "calculate_lock_end trades stop_minutes =
      (case timedelta_minutes stop_minutes of Inl e \<Rightarrow> Inl e | Inr td \<Rightarrow> dt_add mx' td)"
    unfolding calculate_lock_end_def ds_def [symmetric] mx(2) mx'_def by (simp add: Let_def)
  have "if 0 < n div 86400000000 \<and> n div 86400000000 \<le> MAXORDINAL
        then \<exists>until. calculate_lock_end trades stop_minutes = Inr until
               \<and> local_us until = n
               \<and> tzinfo until = (if tzinfo mx = None then utc else tzinfo mx)
               \<and> valid_datetime until
        else calculate_lock_end trades stop_minutes = Inl OverflowError"
  proof (cases "0 < n div 86400000000 \<and> n div 86400000000 \<le> MAXORDINAL")
    case True
    define q where "q = n div 86400000000"
    have "86400000000 * q \<le> n" "n < 86400000000 * q + 86400000000"
      unfolding q_def using pos_mod_bound [of 86400000000 n] pos_mod_sign [of 86400000000 n]
        div_mult_mod_eq [of n 86400000000] by linarith+
    moreover have "0 < q" "q \<le> 3652059" using True by (simp_all add: q_def MAXORDINAL_def)
    ultimately have "\<bar>stop_minutes * 60000000\<bar> < 315537984000000000"
      using local_us_range [OF v] unfolding n_def by linarith
    then have td: "timedelta_minutes stop_minutes = Inr (stop_minutes * 60000000)"
      by (rule timedelta_minutes_in_range)
    have "calculate_lock_end trades stop_minutes = Inr (from_local_us n (tzinfo mx'))"
      unfolding c td using True by (simp add: dt_add_def l n_def Let_def)
    moreover have "local_us (from_local_us n (tzinfo mx')) = n"
      "tzinfo (from_local_us n (tzinfo mx')) = tzinfo mx'"
      "valid_datetime (from_local_us n (tzinfo mx'))"
      using from_local_us_correct [of n "tzinfo mx'"] True zv by simp_all
    ultimately show ?thesis using True z by simp
  next
    case False
    from timedelta_minutes_cases [of stop_minutes]
    have "calculate_lock_end trades stop_minutes = Inl OverflowError"
    proof
      assume "timedelta_minutes stop_minutes = Inr (stop_minutes * 60000000)"
      then show ?thesis unfolding c using False by (auto simp: dt_add_def l n_def Let_def)
    next
      assume "timedelta_minutes stop_minutes = Inl OverflowError"
      then show ?thesis unfolding c by simp
    qed
    with False show ?thesis by simp
  qed
  with mx(1,3) show ?thesis unfolding ds_def n_def by blast
qed

theorem calculate_lock_end_max_witness:
  "calculate_lock_end [\<lparr>close_date = Some example_now\<rparr>, \<lparr>close_date = None\<rparr>,
                       \<lparr>close_date = Some example_month_end\<rparr>] 30
     = Inr (example_month_end\<lparr>minute := 30\<rparr>)
   \<and> local_us (example_month_end\<lparr>minute := 30\<rparr>) = local_us example_month_end + 30 * 60000000"
proof -
  let ?trades = "[\<lparr>close_date = Some example_now\<rparr>, \<lparr>close_date = None\<rparr>,
                       \<lparr>close_date = Some example_month_end\<rparr>]"
  have ds: "List.map_filter close_date ?trades = [example_now, example_month_end]"
    by (simp add: List.map_filter_simps)
  have a1: "List.map_filter close_date ?trades \<noteq> []" unfolding ds by simp
  have v: "valid_datetime example_now \<and> valid_datetime example_month_end
      \<and> tzinfo example_now \<noteq> None \<and> tzinfo example_month_end \<noteq> None
      \<and> \<not> utc_us example_month_end \<le> utc_us example_now
      \<and> 0 < (local_us example_month_end + 30 * 60000000) div 86400000000
      \<and> (local_us example_month_end + 30 * 60000000) div 86400000000 \<le> MAXORDINAL"
    by code_simp
  have a2: "\<forall>t \<in> set (List.map_filter close_date ?trades). valid_datetime t"
    unfolding ds using v by simp
  have a3: "(\<forall>t \<in> set (List.map_filter close_date ?trades). tzinfo t = None)
         \<or> (\<forall>t \<in> set (List.map_filter close_date ?trades). tzinfo t \<noteq> None)"
    unfolding ds using v by simp
  have c: "calculate_lock_end ?trades 30 = Inr (example_month_end\<lparr>minute := 30\<rparr>)"
    by code_simp
  from calculate_lock_end_max [OF a1 a2 a3, of 30]
  obtain mx where mx: "mx \<in> set [example_now, example_month_end]"
    "\<forall>t \<in> set [example_now, example_month_end]. utc_us t \<le> utc_us mx"
    and r: "if 0 < (local_us mx + 30 * 60000000) div 86400000000
                  \<and> (local_us mx + 30 * 60000000) div 86400000000 \<le> MAXORDINAL
               then \<exists>until. calculate_lock_end ?trades 30 = Inr until
                      \<and> local_us until = local_us mx + 30 * 60000000
                      \<and> tzinfo until = (if tzinfo mx = None then utc else tzinfo mx)
                      \<and> valid_datetime until
               else calculate_lock_end ?trades 30 = Inl OverflowError"
    unfolding ds by blast
  from mx v have "mx = example_month_end" by auto
  with r v c have "local_us (example_month_end\<lparr>minute := 30\<rparr>)
      = local_us example_month_end + 30 * 60000000" by auto
  with c show ?thesis by simp
qed

text \<open>
  The claim as stated fails where the sum leaves the calendar: one trade closed at
  9999-12-31 23:59 UTC and 1 stop minute raise \<open>OverflowError\<close>. It also fails for a naive
  and an aware close date, which \<open>max\<close> cannot compare (\<open>TypeError\<close>).
\<close>

theorem calculate_lock_end_raises:
  "calculate_lock_end [\<lparr>close_date = Some example_last_minute\<rparr>] 1 = Inl OverflowError
   \<and> calculate_lock_end [\<lparr>close_date = Some example_first\<rparr>, \<lparr>close_date = Some example_now\<rparr>] 30
       = Inl TypeError"
  by code_simp

end
